theory Spec2Isabelle
  imports Complex_Main
begin

section \<open>JavaScript values\<close>

text \<open>
  A JavaScript string is a sequence of UTF-16 code units, and \<^verbatim>\<open>length\<close>,
  \<^verbatim>\<open>charAt\<close>, \<^verbatim>\<open>includes\<close> and \<^verbatim>\<open>split\<close> all work on code units; a string is
  therefore a list of code units, each a natural number. \<open>str\<close> turns an ASCII literal
  into such a list; code units beyond ASCII are written as numbers (\<open>243\<close> is o-acute,
  \<open>10003\<close> the check mark).

  A JavaScript number is modelled as a real number: the model has no rounding, no NaN and
  no infinity. The only division of the program whose divisor can be zero is the one by the
  image area; the theorems that read its result assume a positive area.
\<close>

type_synonym jsstring = "nat list"

definition str :: "string \<Rightarrow> jsstring" where
  "str s = map of_char s"

text \<open>White space as \<^verbatim>\<open>String.prototype.trim\<close> and the regular expression class
  \<^verbatim>\<open>\s\<close> define it: the WhiteSpace and LineTerminator code units.\<close>

definition isWhiteSpace :: "nat \<Rightarrow> bool" where
  "isWhiteSpace c \<longleftrightarrow>
     c = 9 \<or> c = 10 \<or> c = 11 \<or> c = 12 \<or> c = 13 \<or> c = 32 \<or> c = 160 \<or> c = 5760 \<or>
     (8192 \<le> c \<and> c \<le> 8202) \<or> c = 8232 \<or> c = 8233 \<or> c = 8239 \<or> c = 8287 \<or>
     c = 12288 \<or> c = 65279"

definition trim :: "jsstring \<Rightarrow> jsstring" where
  "trim s = rev (dropWhile isWhiteSpace (rev (dropWhile isWhiteSpace s)))"

text \<open>\<^verbatim>\<open>s.split(/\s+/)\<close>: the pieces between maximal runs of white space. A leading or
  trailing run leaves an empty piece, and the empty string splits into one empty piece.
  \<open>inSep\<close> says that the scan is inside a run whose separator has been emitted.\<close>

fun splitWs :: "bool \<Rightarrow> jsstring \<Rightarrow> jsstring \<Rightarrow> jsstring list" where
  "splitWs inSep cur [] = [cur]"
| "splitWs inSep cur (c # cs) =
     (if isWhiteSpace c then
        (if inSep then splitWs True cur cs else cur # splitWs True [] cs)
      else splitWs False (cur @ [c]) cs)"

definition splitWhitespace :: "jsstring \<Rightarrow> jsstring list" where
  "splitWhitespace s = splitWs False [] s"

text \<open>\<^verbatim>\<open>s.split("\n")\<close>, for a separator of one code unit.\<close>

fun splitOn :: "nat \<Rightarrow> jsstring \<Rightarrow> jsstring \<Rightarrow> jsstring list" where
  "splitOn d cur [] = [cur]"
| "splitOn d cur (c # cs) =
     (if c = d then cur # splitOn d [] cs else splitOn d (cur @ [c]) cs)"

definition splitLines :: "jsstring \<Rightarrow> jsstring list" where
  "splitLines s = splitOn 10 [] s"

fun startsWith :: "'a list \<Rightarrow> 'a list \<Rightarrow> bool" where
  "startsWith s [] = True"
| "startsWith [] (k # ks) = False"
| "startsWith (c # cs) (k # ks) = (c = k \<and> startsWith cs ks)"

text \<open>\<^verbatim>\<open>s.includes(k)\<close>: \<open>k\<close> occurs in \<open>s\<close> as a contiguous run.\<close>

fun includesStr :: "'a list \<Rightarrow> 'a list \<Rightarrow> bool" where
  "includesStr [] k = startsWith [] k"
| "includesStr (c # cs) k = (startsWith (c # cs) k \<or> includesStr cs k)"

text \<open>\<^verbatim>\<open>String.prototype.toLowerCase\<close>, on the Basic Latin and Latin-1 Supplement blocks
  (the upper-case letters A to Z and U+00C0 to U+00DE without the multiplication sign);
  every other code unit is left as it is.\<close>

definition lowerUnit :: "nat \<Rightarrow> nat" where
  "lowerUnit c =
     (if (65 \<le> c \<and> c \<le> 90) \<or> (192 \<le> c \<and> c \<le> 222 \<and> c \<noteq> 215) then c + 32 else c)"

definition toLowerCase :: "jsstring \<Rightarrow> jsstring" where
  "toLowerCase s = map lowerUnit s"

text \<open>\<^verbatim>\<open>parts.join(sep)\<close>.\<close>

fun join :: "jsstring \<Rightarrow> jsstring list \<Rightarrow> jsstring" where
  "join sep [] = []"
| "join sep [x] = x"
| "join sep (x # y # ys) = x @ sep @ join sep (y # ys)"

text \<open>The two conversions of a number to text that the program uses are built into the
  language: the conversion of a template literal \<^verbatim>\<open>${n}\<close> and \<^verbatim>\<open>n.toFixed(2)\<close>. The
  functions that build text from numbers take them as a parameter.\<close>

record js_number_format =
  numberToString :: "real \<Rightarrow> jsstring"
  toFixed2 :: "real \<Rightarrow> jsstring"

section \<open>Data model (src/types)\<close>

record Bbox =
  x0 :: real
  y0 :: real
  x1 :: real
  y1 :: real

record OCRWord =
  word_text :: jsstring
  word_confidence :: real
  bbox :: Bbox

record OCRResult =
  ocr_text :: jsstring
  ocr_confidence :: real
  words :: "OCRWord list"

record TextDensityAnalysis =
  totalTextArea :: real
  imageArea :: real
  textCoveragePercentage :: real
  textBlockCount :: real
  averageWordConfidence :: real
  wordsDetected :: real

record BarcodeQRAnalysis =
  hasBarcode :: bool
  hasQRCode :: bool
  bq_confidence :: real

record Metrics =
  textCoverage :: real
  m_textBlockCount :: real
  wordCount :: real
  m_hasBarcode :: bool
  m_hasQRCode :: bool
  averageTextConfidence :: real

record LabelDetectionResult =
  isProductLabel :: bool
  res_confidence :: real
  res_reasoning :: jsstring
  metrics :: Metrics
  processingTimeMs :: real

datatype ImageType = NORMAL | MINIATURE

record ProductImage =
  filePixelHeight :: real
  filePixelWidth :: real
  imageType :: ImageType
  imageHash :: jsstring
  referencedFileURL :: jsstring
  baseUrl :: jsstring
  isAbsoluteUrl :: bool
  image_id :: jsstring
  canBeFix :: "bool option"
  isValid :: "bool option"

section \<open>Approximate matcher (ImageAnalysisService)\<close>

subsection \<open>levenshteinDistance\<close>

text \<open>The matrix has \<open>len2 + 1\<close> rows of \<open>len1 + 1\<close> cells, all zero at first. Every
  index the function uses is in range, so the guards \<^verbatim>\<open>if (row)\<close> and \<^verbatim>\<open>?? 0\<close> of the
  source never take their other branch.\<close>

definition newMatrix :: "nat \<Rightarrow> nat \<Rightarrow> nat list list" where
  "newMatrix len1 len2 = replicate (Suc len2) (replicate (Suc len1) 0)"

definition setCell :: "nat list list \<Rightarrow> nat \<Rightarrow> nat \<Rightarrow> nat \<Rightarrow> nat list list" where
  "setCell matrix i j v = matrix[i := (matrix ! i)[j := v]]"

definition initFirstColumn :: "nat \<Rightarrow> nat list list \<Rightarrow> nat list list" where
  "initFirstColumn len2 matrix = fold (\<lambda>i m. setCell m i 0 i) [0..<Suc len2] matrix"

definition initFirstRow :: "nat \<Rightarrow> nat list list \<Rightarrow> nat list list" where
  "initFirstRow len1 matrix = fold (\<lambda>j m. setCell m 0 j j) [0..<Suc len1] matrix"

definition fillCell :: "'a list \<Rightarrow> 'a list \<Rightarrow> nat \<Rightarrow> nat \<Rightarrow> nat list list \<Rightarrow> nat list list" where
  "fillCell str1 str2 i j matrix =
     (let currentRow = matrix ! i; prevRow = matrix ! (i - 1) in
      if str2 ! (i - 1) = str1 ! (j - 1) then setCell matrix i j (prevRow ! (j - 1))
      else
        (let diagCost = prevRow ! (j - 1);
             leftCost = currentRow ! (j - 1);
             topCost = prevRow ! j
         in setCell matrix i j (min (diagCost + 1) (min (leftCost + 1) (topCost + 1)))))"

definition fillRow :: "'a list \<Rightarrow> 'a list \<Rightarrow> nat \<Rightarrow> nat list list \<Rightarrow> nat list list" where
  "fillRow str1 str2 i matrix = fold (fillCell str1 str2 i) [1..<Suc (length str1)] matrix"

definition levenshteinDistance :: "'a list \<Rightarrow> 'a list \<Rightarrow> nat" where
  "levenshteinDistance str1 str2 =
     (let len1 = length str1;
          len2 = length str2;
          matrix = initFirstRow len1 (initFirstColumn len2 (newMatrix len1 len2));
          filled = fold (fillRow str1 str2) [1..<Suc len2] matrix
      in filled ! len2 ! len1)"

subsection \<open>similarity and fuzzySearch\<close>

definition similarity :: "jsstring \<Rightarrow> jsstring \<Rightarrow> real" where
  "similarity s1 s2 =
     (let longer = (if length s1 > length s2 then s1 else s2);
          shorter = (if length s1 > length s2 then s2 else s1)
      in if length longer = 0 then 1
         else
           (let editDistance = levenshteinDistance (toLowerCase longer) (toLowerCase shorter)
            in (real (length longer) - real editDistance) / real (length longer)))"

text \<open>The loop over the words returns at the first word that is long enough and similar
  enough; \<open>list_ex\<close> is that loop.\<close>

definition fuzzySearch :: "jsstring \<Rightarrow> jsstring \<Rightarrow> real \<Rightarrow> bool" where
  "fuzzySearch txt keyword threshold =
     (let textLower = toLowerCase txt;
          keywordLower = toLowerCase keyword
      in if includesStr textLower keywordLower then True
         else if list_ex
                   (\<lambda>word. int (length word) \<ge> int (length keywordLower) - 2 \<and>
                            similarity word keywordLower \<ge> threshold)
                   (splitWhitespace textLower)
         then True
         else
           (let keywordParts = splitWhitespace keywordLower;
                matchedParts =
                  filter (\<lambda>part. length part > 3 \<and> includesStr textLower part) keywordParts
            in of_int (int (length matchedParts)) \<ge> \<lceil>real (length keywordParts) * 0.6\<rceil>))"

section \<open>Signal detectors (ImageAnalysisService)\<close>

subsection \<open>The regular expressions of the detectors\<close>

text \<open>Each regular expression of the source is a matcher written for that expression.
  \<^verbatim>\<open>\d\<close> is an ASCII digit and \<^verbatim>\<open>\w\<close> an ASCII letter, digit or underscore. Under
  the flag \<^verbatim>\<open>i\<close> (without \<^verbatim>\<open>u\<close>) a code unit matches an ASCII letter of the pattern
  when it is that letter in either case: no code unit beyond ASCII is folded onto an ASCII
  one. \<open>canonicalize\<close> is that folding, for comparisons with ASCII patterns.\<close>

definition isDigit :: "nat \<Rightarrow> bool" where
  "isDigit c \<longleftrightarrow> 48 \<le> c \<and> c \<le> 57"

definition isWordChar :: "nat \<Rightarrow> bool" where
  "isWordChar c \<longleftrightarrow> isDigit c \<or> (65 \<le> c \<and> c \<le> 90) \<or> (97 \<le> c \<and> c \<le> 122) \<or> c = 95"

definition isLineTerminator :: "nat \<Rightarrow> bool" where
  "isLineTerminator c \<longleftrightarrow> c = 10 \<or> c = 13 \<or> c = 8232 \<or> c = 8233"

definition canonicalize :: "nat \<Rightarrow> nat" where
  "canonicalize c = (if 97 \<le> c \<and> c \<le> 122 then c - 32 else c)"

definition startsWithCI :: "jsstring \<Rightarrow> jsstring \<Rightarrow> bool" where
  "startsWithCI s k = startsWith (map canonicalize s) (map canonicalize k)"

definition includesCI :: "jsstring \<Rightarrow> jsstring \<Rightarrow> bool" where
  "includesCI s k = includesStr (map canonicalize s) (map canonicalize k)"

text \<open>\<^verbatim>\<open>/\d{8,}/g\<close> finds a match exactly when eight digits stand in a row; \<open>n\<close> counts
  the digits of the run the scan is in.\<close>

fun longNumberSequence :: "nat \<Rightarrow> jsstring \<Rightarrow> bool" where
  "longNumberSequence n [] = False"
| "longNumberSequence n (c # cs) =
     (if isDigit c then (if Suc n \<ge> 8 then True else longNumberSequence (Suc n) cs)
      else longNumberSequence 0 cs)"

text \<open>\<^verbatim>\<open>/\|\s*\d+/\<close>: a pipe, any white space, a digit.\<close>

fun tablePattern :: "jsstring \<Rightarrow> bool" where
  "tablePattern [] = False"
| "tablePattern (c # cs) =
     ((c = 124 \<and> (case dropWhile isWhiteSpace cs of [] \<Rightarrow> False | d # _ \<Rightarrow> isDigit d)) \<or>
      tablePattern cs)"

text \<open>\<^verbatim>\<open>/\d+[\.,]?\d*\s*(g|mg|kcal|cal|gr)\b/gi\<close>, matched at the start of \<open>s\<close>: the length
  of the match. The digits, the separator, the second digits and the white space are each
  taken whole: the unit starts with a letter, so no shorter choice of the backtracking
  matcher reaches a unit. The units are tried in the order of the pattern, each followed
  by a word boundary.\<close>

definition unitNames :: "jsstring list" where
  "unitNames = [str ''g'', str ''mg'', str ''kcal'', str ''cal'', str ''gr'']"

definition wordBoundaryAfterWord :: "jsstring \<Rightarrow> bool" where
  "wordBoundaryAfterWord rest = (case rest of [] \<Rightarrow> True | c # _ \<Rightarrow> \<not> isWordChar c)"

definition unitMatchLength :: "jsstring \<Rightarrow> nat option" where
  "unitMatchLength s =
     (let d1 = takeWhile isDigit s;
          r1 = dropWhile isDigit s;
          sep = (case r1 of [] \<Rightarrow> [] | c # _ \<Rightarrow> if c = 46 \<or> c = 44 then [c] else []);
          r2 = drop (length sep) r1;
          d2 = takeWhile isDigit r2;
          r3 = dropWhile isDigit r2;
          ws = takeWhile isWhiteSpace r3;
          r4 = dropWhile isWhiteSpace r3
      in if d1 = [] then None
         else
           (case find (\<lambda>u. startsWithCI r4 u \<and> wordBoundaryAfterWord (drop (length u) r4))
                   unitNames of
              None \<Rightarrow> None
            | Some u \<Rightarrow> Some (length d1 + length sep + length d2 + length ws + length u)))"

text \<open>The number of matches of a global \<^verbatim>\<open>match\<close>: the scan looks for a match at each
  position from left to right and resumes after the match. \<open>skip\<close> is the number of code
  units of the last match still to pass.\<close>

fun countUnitMatches :: "nat \<Rightarrow> jsstring \<Rightarrow> nat" where
  "countUnitMatches skip [] = 0"
| "countUnitMatches (Suc k) (c # cs) = countUnitMatches k cs"
| "countUnitMatches 0 (c # cs) =
     (case unitMatchLength (c # cs) of
        None \<Rightarrow> countUnitMatches 0 cs
      | Some n \<Rightarrow> Suc (countUnitMatches (n - 1) cs))"

text \<open>\<^verbatim>\<open>/por\s+(cada|100|cad)/i\<close>.\<close>

fun portionInfo :: "jsstring \<Rightarrow> bool" where
  "portionInfo [] = False"
| "portionInfo (c # cs) =
     ((startsWithCI (c # cs) (str ''por'') \<and>
       (let r = drop 3 (c # cs) in
          r \<noteq> [] \<and> isWhiteSpace (hd r) \<and>
          list_ex (startsWithCI (dropWhile isWhiteSpace r)) [str ''cada'', str ''100'', str ''cad''])) \<or>
      portionInfo cs)"

text \<open>\<^verbatim>\<open>/informa.*nutri/i\<close>: the dot matches no line terminator.\<close>

fun informaNutri :: "jsstring \<Rightarrow> bool" where
  "informaNutri [] = False"
| "informaNutri (c # cs) =
     ((startsWithCI (c # cs) (str ''informa'') \<and>
       includesCI (takeWhile (\<lambda>u. \<not> isLineTerminator u) (drop 7 (c # cs))) (str ''nutri'')) \<or>
      informaNutri cs)"

subsection \<open>detectBarcodeQR\<close>

definition qrPatterns :: "jsstring list" where
  "qrPatterns = [str ''qr'', str ''scan'', str ''escanea'',
                 str ''c'' @ [243] @ str ''digo'', str ''codigo'']"

definition barcodePatterns :: "jsstring list" where
  "barcodePatterns = [str ''barras'', str ''ean'', str ''upc'',
                      str ''c'' @ [243] @ str ''digo'', str ''codigo'']"

definition detectBarcodeQR :: "OCRResult \<Rightarrow> BarcodeQRAnalysis" where
  "detectBarcodeQR ocrResult =
     (let txt = ocr_text ocrResult;
          hasQRKeywords = list_ex (\<lambda>pattern. fuzzySearch txt pattern 0.7) qrPatterns;
          hasBarcodeKeywords = list_ex (\<lambda>pattern. fuzzySearch txt pattern 0.7) barcodePatterns;
          longNumberSequences = longNumberSequence 0 txt
      in \<lparr> hasBarcode = (hasBarcodeKeywords \<or> longNumberSequences),
           hasQRCode = hasQRKeywords,
           bq_confidence =
             (if hasQRKeywords \<or> hasBarcodeKeywords then 0.8
              else if longNumberSequences then 0.6 else 0.3) \<rparr>)"

subsection \<open>hasNutritionalInfo\<close>

definition nutritionalKeywords :: "jsstring list" where
  "nutritionalKeywords =
     [str ''informacion nutricional'',
      str ''informaci'' @ [243] @ str ''n nutricional'',
      str ''nutricional'',
      str ''calorias'',
      str ''calor'' @ [237] @ str ''as'',
      str ''proteina'',
      str ''prote'' @ [237] @ str ''na'',
      str ''grasa'',
      str ''carbohidrato'',
      str ''kcal'',
      str ''nutricion'']"

definition shortNutritionalWords :: "jsstring list" where
  "shortNutritionalWords =
     [str ''cal'', str ''kcal'', str ''grasa'', str ''prot'', str ''carb'', str ''fibr'']"

definition partialMatches :: "(jsstring \<Rightarrow> bool) list" where
  "partialMatches =
     [\<lambda>t. includesCI t (str ''nutri''),
      \<lambda>t. includesCI t (str ''calor''),
      \<lambda>t. includesCI t (str ''prote''),
      \<lambda>t. includesCI t (str ''carbo''),
      informaNutri]"

definition hasNutritionalInfo :: "OCRResult \<Rightarrow> bool" where
  "hasNutritionalInfo ocrResult =
     (let txt = ocr_text ocrResult;
          textLower = toLowerCase txt;
          matchedKeywords = filter (\<lambda>keyword. fuzzySearch txt keyword 0.7) nutritionalKeywords;
          hasTablePattern = tablePattern txt;
          hasMultiplePipes = (length (filter (\<lambda>c. c = 124) txt) \<ge> 3);
          nutritionalUnits = countUnitMatches 0 txt;
          hasMultipleUnits = (nutritionalUnits \<ge> 3);
          shortMatches = length (filter (\<lambda>word. includesStr textLower word) shortNutritionalWords);
          hasPortionInfo = portionInfo txt;
          partialMatchCount = length (filter (\<lambda>pattern. pattern txt) partialMatches)
      in length matchedKeywords \<ge> 1 \<or>
         (hasTablePattern \<and> hasMultiplePipes) \<or>
         hasMultipleUnits \<or>
         shortMatches \<ge> 2 \<or>
         (hasPortionInfo \<and> nutritionalUnits \<ge> 2) \<or>
         partialMatchCount \<ge> 2)"

subsection \<open>hasIngredients, hasStorageInfo, hasManufacturerInfo\<close>

definition ingredientKeywords :: "jsstring list" where
  "ingredientKeywords =
     [str ''ingrediente'', str ''ingredientes'', str ''contiene'', str ''leche'',
      str ''azucar'', str ''az'' @ [250] @ str ''car'', str ''agua'', str ''natural'',
      str ''cultivo'', str ''probiotico'', str ''probi'' @ [243] @ str ''tico'']"

definition hasIngredients :: "OCRResult \<Rightarrow> bool" where
  "hasIngredients ocrResult =
     (let matchedCount =
            length (filter (\<lambda>keyword. fuzzySearch (ocr_text ocrResult) keyword 0.75)
                      ingredientKeywords)
      in matchedCount \<ge> 2)"

definition storageKeywords :: "jsstring list" where
  "storageKeywords =
     [str ''temperatura'', str ''almacena'', str ''refrigera'', str ''conserva'',
      str ''grados'', [176] @ str ''c'', str ''almacenaje'']"

definition hasStorageInfo :: "OCRResult \<Rightarrow> bool" where
  "hasStorageInfo ocrResult =
     list_ex (\<lambda>keyword. fuzzySearch (ocr_text ocrResult) keyword 0.75) storageKeywords"

definition manufacturerKeywords :: "jsstring list" where
  "manufacturerKeywords =
     [str ''producto'', str ''fabricado'', str ''elaborado'', str ''distribuido'',
      str ''comercializado'', str ''industria'', str ''empresa'', str ''hecho en'']"

definition hasManufacturerInfo :: "OCRResult \<Rightarrow> bool" where
  "hasManufacturerInfo ocrResult =
     list_ex (\<lambda>keyword. fuzzySearch (ocr_text ocrResult) keyword 0.75) manufacturerKeywords"

section \<open>Density analyzer (ImageAnalysisService)\<close>

text \<open>The set of occupied cells holds the keys \<^verbatim>\<open>`${cellX},${cellY}`\<close>; two keys are equal
  exactly when the two integers are, so the set is a set of pairs of integers.\<close>

definition cellOf :: "real \<Rightarrow> real \<Rightarrow> real \<times> real \<Rightarrow> int \<times> int" where
  "cellOf cellWidth cellHeight point =
     (\<lfloor>fst point / cellWidth\<rfloor>, \<lfloor>snd point / cellHeight\<rfloor>)"

definition countTextBlocks :: "(real \<times> real) list \<Rightarrow> real \<Rightarrow> real \<Rightarrow> nat" where
  "countTextBlocks points imageWidth imageHeight =
     (if length points = 0 then 0
      else
        (let gridSize = 5;
             cellWidth = imageWidth / gridSize;
             cellHeight = imageHeight / gridSize;
             occupiedCells =
               fold (\<lambda>point cells. insert (cellOf cellWidth cellHeight point) cells) points {}
         in card occupiedCells))"

definition wordArea :: "OCRWord \<Rightarrow> real" where
  "wordArea word =
     (let wordWidth = x1 (bbox word) - x0 (bbox word);
          wordHeight = y1 (bbox word) - y0 (bbox word)
      in wordWidth * wordHeight)"

definition wordCenter :: "OCRWord \<Rightarrow> real \<times> real" where
  "wordCenter word =
     ((x0 (bbox word) + x1 (bbox word)) / 2, (y0 (bbox word) + y1 (bbox word)) / 2)"

definition analyzeFromWords :: "OCRResult \<Rightarrow> real \<Rightarrow> TextDensityAnalysis" where
  "analyzeFromWords ocrResult area =
     (let total = foldl (\<lambda>acc word. acc + wordArea word) 0 (words ocrResult);
          textBlocks = map wordCenter (words ocrResult);
          blockCount = countTextBlocks textBlocks 1000 1000;
          coverage = (total / area) * 100;
          avgConfidence =
            (if length (words ocrResult) > 0
             then foldl (\<lambda>sum word. sum + word_confidence word) 0 (words ocrResult) /
                  real (length (words ocrResult))
             else 0)
      in \<lparr> totalTextArea = total,
           imageArea = area,
           textCoveragePercentage = coverage,
           textBlockCount = real blockCount,
           averageWordConfidence = avgConfidence,
           wordsDetected = real (length (words ocrResult)) \<rparr>)"

definition analyzeFromPlainText ::
  "OCRResult \<Rightarrow> real \<Rightarrow> real \<Rightarrow> real \<Rightarrow> TextDensityAnalysis" where
  "analyzeFromPlainText ocrResult area imageWidth imageHeight =
     (let txt = trim (ocr_text ocrResult);
          ws = filter (\<lambda>w. length w > 0) (splitWhitespace txt);
          avgCharWidth = 10;
          avgCharHeight = 15;
          estimatedTextArea = real (length txt) * avgCharWidth * avgCharHeight;
          coverage = min ((estimatedTextArea / area) * 100) 100;
          lines = filter (\<lambda>line. length (trim line) > 0) (splitLines txt);
          blockCount = max (length lines div 2) 1
      in \<lparr> totalTextArea = estimatedTextArea,
           imageArea = area,
           textCoveragePercentage = coverage,
           textBlockCount = real blockCount,
           averageWordConfidence = ocr_confidence ocrResult,
           wordsDetected = real (length ws) \<rparr>)"

definition analyzeTextDensity :: "OCRResult \<Rightarrow> real \<Rightarrow> real \<Rightarrow> TextDensityAnalysis" where
  "analyzeTextDensity ocrResult imageWidth imageHeight =
     (let area = imageWidth * imageHeight in
      if length (words ocrResult) > 0 then analyzeFromWords ocrResult area
      else if length (trim (ocr_text ocrResult)) > 0
      then analyzeFromPlainText ocrResult area imageWidth imageHeight
      else \<lparr> totalTextArea = 0,
             imageArea = area,
             textCoveragePercentage = 0,
             textBlockCount = 0,
             averageWordConfidence = 0,
             wordsDetected = 0 \<rparr>)"

section \<open>Scoring engine (LabelDetectionService.calculateLabelScore)\<close>

text \<open>The function keeps two local variables, \<^verbatim>\<open>score\<close> and \<^verbatim>\<open>reasons\<close>, and runs nine
  blocks over them, which the source numbers \<^verbatim>\<open>Criterio 0\<close> to \<^verbatim>\<open>Criterio 8\<close>. Each
  block is a function on the pair of the two variables.\<close>

type_synonym score_state = "real \<times> jsstring list"

text \<open>\<^verbatim>\<open>score += points; reasons.push(reason)\<close>.\<close>

definition award :: "real \<Rightarrow> jsstring \<Rightarrow> score_state \<Rightarrow> score_state" where
  "award points reason st = (fst st + points, snd st @ [reason])"

definition checkMark :: "jsstring" where
  "checkMark = [10003]"

definition criterion0 :: "js_number_format \<Rightarrow> OCRResult \<Rightarrow> score_state \<Rightarrow> score_state" where
  "criterion0 F ocrResult st =
     (let textLength = length (trim (ocr_text ocrResult)) in
      if textLength > 100 then
        award 15 (str ''Cantidad significativa de texto detectado: '' @
                  numberToString F (real textLength) @ str '' caracteres'') st
      else if textLength > 50 then
        award 8 (str ''Texto detectado: '' @
                 numberToString F (real textLength) @ str '' caracteres'') st
      else st)"

definition criterion1 ::
  "js_number_format \<Rightarrow> TextDensityAnalysis \<Rightarrow> score_state \<Rightarrow> score_state" where
  "criterion1 F textDensity st =
     (let textCoverageRatio = textCoveragePercentage textDensity / 100 in
      if textCoverageRatio > 0.1 then
        (let textScore = min 20 ((textCoverageRatio / 0.4) * 20) in
         award textScore (str ''Cobertura de texto: '' @
                          toFixed2 F (textCoveragePercentage textDensity) @ str ''%'') st)
      else st)"

definition criterion2 ::
  "js_number_format \<Rightarrow> TextDensityAnalysis \<Rightarrow> score_state \<Rightarrow> score_state" where
  "criterion2 F textDensity st =
     (if textBlockCount textDensity \<ge> 5 then
        award 15 (str ''M'' @ [250] @ str ''ltiples bloques de texto: '' @
                  numberToString F (textBlockCount textDensity)) st
      else if textBlockCount textDensity \<ge> 3 then
        award 10 (str ''Varios bloques de texto: '' @
                  numberToString F (textBlockCount textDensity)) st
      else if textBlockCount textDensity \<ge> 2 then
        award 5 (str ''Algunos bloques de texto: '' @
                 numberToString F (textBlockCount textDensity)) st
      else st)"

definition criterion3 ::
  "js_number_format \<Rightarrow> TextDensityAnalysis \<Rightarrow> score_state \<Rightarrow> score_state" where
  "criterion3 F textDensity st =
     (if wordsDetected textDensity \<ge> 30 then
        award 15 (str ''Alto n'' @ [250] @ str ''mero de palabras: '' @
                  numberToString F (wordsDetected textDensity)) st
      else if wordsDetected textDensity \<ge> 20 then
        award 12 (str ''N'' @ [250] @ str ''mero moderado-alto de palabras: '' @
                  numberToString F (wordsDetected textDensity)) st
      else if wordsDetected textDensity \<ge> 10 then
        award 8 (str ''N'' @ [250] @ str ''mero moderado de palabras: '' @
                 numberToString F (wordsDetected textDensity)) st
      else if wordsDetected textDensity \<ge> 5 then
        award 4 (str ''Algunas palabras detectadas: '' @
                 numberToString F (wordsDetected textDensity)) st
      else st)"

definition criterion4 :: "bool \<Rightarrow> score_state \<Rightarrow> score_state" where
  "criterion4 hasNutritional st =
     (if hasNutritional then
        award 20 (checkMark @ str '' Contiene informaci'' @ [243] @
                  str ''n nutricional (indicador muy fuerte)'') st
      else st)"

definition criterion5 :: "OCRResult \<Rightarrow> score_state \<Rightarrow> score_state" where
  "criterion5 ocrResult st =
     (if hasIngredients ocrResult then
        award 10 (checkMark @ str '' Contiene lista de ingredientes'') st
      else st)"

definition criterion6 :: "OCRResult \<Rightarrow> score_state \<Rightarrow> score_state" where
  "criterion6 ocrResult st =
     (if hasStorageInfo ocrResult then
        award 5 (checkMark @ str '' Contiene informaci'' @ [243] @
                 str ''n de temperatura/almacenamiento'') st
      else st)"

definition criterion7 :: "OCRResult \<Rightarrow> score_state \<Rightarrow> score_state" where
  "criterion7 ocrResult st =
     (if hasManufacturerInfo ocrResult then
        award 5 (checkMark @ str '' Contiene informaci'' @ [243] @
                 str ''n del fabricante/distribuidor'') st
      else st)"

definition codeNames :: "BarcodeQRAnalysis \<Rightarrow> jsstring list" where
  "codeNames barcodeQR =
     (if hasQRCode barcodeQR then [str ''QR''] else []) @
     (if hasBarcode barcodeQR then [str ''c'' @ [243] @ str ''digo de barras''] else [])"

definition criterion8 :: "BarcodeQRAnalysis \<Rightarrow> score_state \<Rightarrow> score_state" where
  "criterion8 barcodeQR st =
     (if hasQRCode barcodeQR \<or> hasBarcode barcodeQR then
        award 5 (checkMark @ str '' Contiene '' @ join (str '' y/o '') (codeNames barcodeQR)) st
      else st)"

text \<open>The two local variables after the nine blocks.\<close>

definition scoreAndReasons ::
  "js_number_format \<Rightarrow> TextDensityAnalysis \<Rightarrow> BarcodeQRAnalysis \<Rightarrow> bool \<Rightarrow> OCRResult \<Rightarrow>
   score_state" where
  "scoreAndReasons F textDensity barcodeQR hasNutritional ocrResult =
     criterion8 barcodeQR
       (criterion7 ocrResult
         (criterion6 ocrResult
           (criterion5 ocrResult
             (criterion4 hasNutritional
               (criterion3 F textDensity
                 (criterion2 F textDensity
                   (criterion1 F textDensity
                     (criterion0 F ocrResult (0, [])))))))))"

record LabelScore =
  isLabel :: bool
  confidence :: real
  reasoning :: jsstring

definition noCharacteristics :: "jsstring" where
  "noCharacteristics = str ''No se detectaron caracter'' @ [237] @ str ''sticas de etiqueta''"

definition calculateLabelScore ::
  "js_number_format \<Rightarrow> TextDensityAnalysis \<Rightarrow> BarcodeQRAnalysis \<Rightarrow> bool \<Rightarrow> OCRResult \<Rightarrow>
   LabelScore" where
  "calculateLabelScore F textDensity barcodeQR hasNutritional ocrResult =
     (let st = scoreAndReasons F textDensity barcodeQR hasNutritional ocrResult;
          score = fst st;
          reasons = snd st;
          maxScore = 100
      in \<lparr> isLabel = (score \<ge> 45),
           confidence = min (score / maxScore) 1,
           reasoning =
             (if length reasons > 0 then join (str ''; '') reasons else noCharacteristics) \<rparr>)"

text \<open>Steps 6 to 9 of \<^verbatim>\<open>detectLabel\<close> and the record it returns: what the function
  computes once the image is downloaded, measured and read by the OCR engine.\<close>

definition detectLabelFromOCR ::
  "js_number_format \<Rightarrow> OCRResult \<Rightarrow> real \<Rightarrow> real \<Rightarrow> real \<Rightarrow> LabelDetectionResult" where
  "detectLabelFromOCR F ocrResult width height processingTime =
     (let textDensity = analyzeTextDensity ocrResult width height;
          barcodeQRAnalysis = detectBarcodeQR ocrResult;
          hasNutritional = hasNutritionalInfo ocrResult;
          detectionResult =
            calculateLabelScore F textDensity barcodeQRAnalysis hasNutritional ocrResult
      in \<lparr> isProductLabel = isLabel detectionResult,
           res_confidence = confidence detectionResult,
           res_reasoning = reasoning detectionResult,
           metrics =
             \<lparr> textCoverage = textCoveragePercentage textDensity,
               m_textBlockCount = textBlockCount textDensity,
               wordCount = wordsDetected textDensity,
               m_hasBarcode = hasBarcode barcodeQRAnalysis,
               m_hasQRCode = hasQRCode barcodeQRAnalysis,
               averageTextConfidence = averageWordConfidence textDensity \<rparr>,
           processingTimeMs = processingTime \<rparr>)"

section \<open>Batch coordinator (LabelDetectionService.detectLabelsInBatch)\<close>

text \<open>\<^verbatim>\<open>chunkArray\<close>: the loop \<^verbatim>\<open>for (let i = 0; i < array.length; i += chunkSize)\<close>
  does not end when the chunk size is zero and the array is not empty, so the loop is a
  partial function and \<open>None\<close> stands for a call that never returns. The chunk size is
  the configured size of the worker pool, taken as a natural number.\<close>

partial_function (option) chunkLoop ::
  "'a list \<Rightarrow> nat \<Rightarrow> nat \<Rightarrow> 'a list list \<Rightarrow> 'a list list option" where
  "chunkLoop array chunkSize i chunks =
     (if i < length array
      then chunkLoop array chunkSize (i + chunkSize) (chunks @ [take chunkSize (drop i array)])
      else Some chunks)"

definition chunkArray :: "'a list \<Rightarrow> nat \<Rightarrow> 'a list list option" where
  "chunkArray array chunkSize = chunkLoop array chunkSize 0 []"

text \<open>The result stored for an image whose promise was rejected; \<open>reason\<close> is the text of
  the rejection as the template literal renders it.\<close>

definition failureResult :: "jsstring \<Rightarrow> LabelDetectionResult" where
  "failureResult reason =
     \<lparr> isProductLabel = False,
       res_confidence = 0,
       res_reasoning = str ''Error: '' @ reason,
       metrics =
         \<lparr> textCoverage = 0,
           m_textBlockCount = 0,
           wordCount = 0,
           m_hasBarcode = False,
           m_hasQRCode = False,
           averageTextConfidence = 0 \<rparr>,
       processingTimeMs = 0 \<rparr>"

text \<open>The pipeline of one image downloads the image and runs the OCR engine, so its outcome
  is a parameter \<open>detectLabel\<close>: \<open>Inr\<close> the result of a fulfilled promise, \<open>Inl\<close> the reason
  of a rejected one. \<^verbatim>\<open>Promise.allSettled\<close> returns the outcomes of a chunk in the order
  of the chunk, and \<^verbatim>\<open>forEach\<close> stores them in that order. Every outcome has its image
  in the chunk, so the guard \<^verbatim>\<open>if (!image) return\<close> never fires.\<close>

definition storeSettled ::
  "ProductImage \<times> (jsstring + LabelDetectionResult) \<Rightarrow>
   (jsstring \<rightharpoonup> LabelDetectionResult) \<Rightarrow> (jsstring \<rightharpoonup> LabelDetectionResult)" where
  "storeSettled entry results =
     (let imageId = image_id (fst entry) in
      case snd entry of
        Inr v \<Rightarrow> results(imageId \<mapsto> v)
      | Inl reason \<Rightarrow> results(imageId \<mapsto> failureResult reason))"

definition processChunk ::
  "(ProductImage \<Rightarrow> jsstring + LabelDetectionResult) \<Rightarrow> ProductImage list \<Rightarrow>
   (jsstring \<rightharpoonup> LabelDetectionResult) \<Rightarrow> (jsstring \<rightharpoonup> LabelDetectionResult)" where
  "processChunk detectLabel chunk results =
     (let chunkResults = map detectLabel chunk
      in fold storeSettled (zip chunk chunkResults) results)"

definition detectLabelsInBatch ::
  "(ProductImage \<Rightarrow> jsstring + LabelDetectionResult) \<Rightarrow> nat \<Rightarrow> ProductImage list \<Rightarrow>
   (jsstring \<rightharpoonup> LabelDetectionResult) option" where
  "detectLabelsInBatch detectLabel workerPoolSize images =
     (case chunkArray images workerPoolSize of
        None \<Rightarrow> None
      | Some chunks \<Rightarrow> Some (fold (processChunk detectLabel) chunks Map.empty))"

section \<open>The scoring table of the specification\<close>

text \<open>The specification gives the scoring engine as a table of criteria, each with a
  condition, its points and (in the code) its justification. A row is the triple of the
  three; the rows stand in the order of the table. The rows of one criterion exclude each
  other: the second row of the text volume is for 51 to 100 characters, the rows of the
  block count for 5 and more, 3 to 4 and 2 blocks.\<close>

type_synonym criterion_row = "bool \<times> real \<times> jsstring"

definition criteriaTable ::
  "js_number_format \<Rightarrow> TextDensityAnalysis \<Rightarrow> BarcodeQRAnalysis \<Rightarrow> bool \<Rightarrow> OCRResult \<Rightarrow>
   criterion_row list" where
  "criteriaTable F textDensity barcodeQR hasNutritional ocrResult =
     (let n = length (trim (ocr_text ocrResult));
          ratio = textCoveragePercentage textDensity / 100;
          b = textBlockCount textDensity;
          w = wordsDetected textDensity
      in
      [(n > 100, 15,
          str ''Cantidad significativa de texto detectado: '' @
          numberToString F (real n) @ str '' caracteres''),
       (50 < n \<and> n \<le> 100, 8,
          str ''Texto detectado: '' @ numberToString F (real n) @ str '' caracteres''),
       (ratio > 0.1, min 20 ((ratio / 0.4) * 20),
          str ''Cobertura de texto: '' @
          toFixed2 F (textCoveragePercentage textDensity) @ str ''%''),
       (b \<ge> 5, 15, str ''M'' @ [250] @ str ''ltiples bloques de texto: '' @ numberToString F b),
       (3 \<le> b \<and> b < 5, 10, str ''Varios bloques de texto: '' @ numberToString F b),
       (2 \<le> b \<and> b < 3, 5, str ''Algunos bloques de texto: '' @ numberToString F b),
       (w \<ge> 30, 15, str ''Alto n'' @ [250] @ str ''mero de palabras: '' @ numberToString F w),
       (20 \<le> w \<and> w < 30, 12,
          str ''N'' @ [250] @ str ''mero moderado-alto de palabras: '' @ numberToString F w),
       (10 \<le> w \<and> w < 20, 8,
          str ''N'' @ [250] @ str ''mero moderado de palabras: '' @ numberToString F w),
       (5 \<le> w \<and> w < 10, 4, str ''Algunas palabras detectadas: '' @ numberToString F w),
       (hasNutritional, 20,
          checkMark @ str '' Contiene informaci'' @ [243] @
          str ''n nutricional (indicador muy fuerte)''),
       (hasIngredients ocrResult, 10, checkMark @ str '' Contiene lista de ingredientes''),
       (hasStorageInfo ocrResult, 5,
          checkMark @ str '' Contiene informaci'' @ [243] @
          str ''n de temperatura/almacenamiento''),
       (hasManufacturerInfo ocrResult, 5,
          checkMark @ str '' Contiene informaci'' @ [243] @
          str ''n del fabricante/distribuidor''),
       (hasQRCode barcodeQR \<or> hasBarcode barcodeQR, 5,
          checkMark @ str '' Contiene '' @ join (str '' y/o '') (codeNames barcodeQR))])"

definition firedRows :: "criterion_row list \<Rightarrow> criterion_row list" where
  "firedRows rows = filter fst rows"

definition totalScore :: "criterion_row list \<Rightarrow> real" where
  "totalScore rows = sum_list (map (\<lambda>row. fst (snd row)) (firedRows rows))"

definition justifications :: "criterion_row list \<Rightarrow> jsstring list" where
  "justifications rows = map (\<lambda>row. snd (snd row)) (firedRows rows)"

text \<open>Running one row over the two local variables of the function.\<close>

definition applyRow :: "criterion_row \<Rightarrow> score_state \<Rightarrow> score_state" where
  "applyRow row st = (if fst row then award (fst (snd row)) (snd (snd row)) st else st)"

section \<open>The edit distance of the specification\<close>

text \<open>The classic edit distance of two strings, over insertions, deletions and
  substitutions of one character, by its recurrence over prefixes: \<open>levRec a b i j\<close> is
  the distance between the first \<open>i\<close> characters of \<open>a\<close> and the first \<open>j\<close> characters of
  \<open>b\<close>. Emptying a prefix costs its length; otherwise the last character of one prefix is
  deleted, or the last character of the other is inserted, or the two last characters are
  matched, at cost 1 unless they are equal.\<close>

fun levRec :: "'a list \<Rightarrow> 'a list \<Rightarrow> nat \<Rightarrow> nat \<Rightarrow> nat" where
  "levRec a b 0 j = j"
| "levRec a b (Suc i) 0 = Suc i"
| "levRec a b (Suc i) (Suc j) =
     min (min (levRec a b i (Suc j) + 1) (levRec a b (Suc i) j + 1))
         (levRec a b i j + (if a ! i = b ! j then 0 else 1))"

definition editDistance :: "'a list \<Rightarrow> 'a list \<Rightarrow> nat" where
  "editDistance a b = levRec a b (length a) (length b)"

text \<open>The case-insensitive distance compares the lower-cased strings.\<close>

definition caseInsensitiveEditDistance :: "jsstring \<Rightarrow> jsstring \<Rightarrow> nat" where
  "caseInsensitiveEditDistance a b = editDistance (toLowerCase a) (toLowerCase b)"

text \<open>The same distance by edit scripts: \<open>edits a b n\<close> says that an alignment of \<open>a\<close>
  with \<open>b\<close>, read from left to right, keeps some characters of \<open>a\<close> and substitutes,
  deletes and inserts single characters \<open>n\<close> times in all to turn \<open>a\<close> into \<open>b\<close>.\<close>

inductive edits :: "'a list \<Rightarrow> 'a list \<Rightarrow> nat \<Rightarrow> bool" where
  finished: "edits [] [] 0"
| keep: "edits xs ys n \<Longrightarrow> edits (xs @ [x]) (ys @ [x]) n"
| substitute: "edits xs ys n \<Longrightarrow> edits (xs @ [x]) (ys @ [y]) (Suc n)"
| delete: "edits xs ys n \<Longrightarrow> edits (xs @ [x]) ys (Suc n)"
| insert: "edits xs ys n \<Longrightarrow> edits xs (ys @ [y]) (Suc n)"

section \<open>Quantities the properties speak of\<close>

text \<open>The sum of the areas of the bounding boxes of the words.\<close>

definition totalBboxArea :: "OCRResult \<Rightarrow> real" where
  "totalBboxArea ocr = sum_list (map wordArea (words ocr))"

text \<open>What the batch stores for an image: the value of a fulfilled promise, the failure
  record of a rejected one.\<close>

definition settledResult ::
  "(ProductImage \<Rightarrow> jsstring + LabelDetectionResult) \<Rightarrow> ProductImage \<Rightarrow> LabelDetectionResult" where
  "settledResult detectLabel img =
     (case detectLabel img of Inr v \<Rightarrow> v | Inl reason \<Rightarrow> failureResult reason)"

text \<open>The number of entries of the map a batch returns, and the entry of one key.\<close>

definition entryCount :: "('k \<rightharpoonup> 'v) option \<Rightarrow> nat option" where
  "entryCount r = map_option (\<lambda>m. card (dom m)) r"

definition entryOf :: "('k \<rightharpoonup> 'v) option \<Rightarrow> 'k \<Rightarrow> 'v option" where
  "entryOf r k = (case r of None \<Rightarrow> None | Some m \<Rightarrow> m k)"

section \<open>Invariants used in the proofs\<close>

text \<open>Invariants of the matrix of \<open>levenshteinDistance\<close>: its shape, and which cells hold
  their final value when the loops stand at row \<open>r\<close> and column \<open>c\<close>.\<close>

definition wellShaped :: "nat list list \<Rightarrow> nat \<Rightarrow> nat \<Rightarrow> bool" where
  "wellShaped m rows cols \<longleftrightarrow> length m = rows \<and> (\<forall>i<rows. length (m ! i) = cols)"

definition cellsDone :: "'a list \<Rightarrow> 'a list \<Rightarrow> nat list list \<Rightarrow> nat \<Rightarrow> nat \<Rightarrow> bool" where
  "cellsDone str1 str2 m r c \<longleftrightarrow>
     wellShaped m (Suc (length str2)) (Suc (length str1)) \<and>
     (\<forall>i\<le>length str2. \<forall>j\<le>length str1.
        (i = 0 \<or> j = 0 \<or> i < r \<or> (i = r \<and> j < c)) \<longrightarrow> m ! i ! j = levRec str2 str1 i j)"

text \<open>A line or a piece with a code unit that is not white space.\<close>

definition nonBlank :: "jsstring \<Rightarrow> bool" where
  "nonBlank l \<longleftrightarrow> list_ex (\<lambda>c. \<not> isWhiteSpace c) l"

section \<open>Example inputs\<close>

text \<open>A number format for the examples: decimal digits for a natural number and two
  decimals for a non-negative number, as the language prints them.\<close>

fun decimalDigits :: "nat \<Rightarrow> jsstring" where
  "decimalDigits n = (if n < 10 then [48 + n] else decimalDigits (n div 10) @ [48 + n mod 10])"

definition exampleFormat :: js_number_format where
  "exampleFormat =
     \<lparr> numberToString = (\<lambda>x. decimalDigits (nat \<lfloor>x\<rfloor>)),
       toFixed2 = (\<lambda>x. let n = nat \<lfloor>x * 100 + 1 / 2\<rfloor> in
          decimalDigits (n div 100) @ str ''.'' @
          decimalDigits (n div 10 mod 10) @ decimalDigits (n mod 10)) \<rparr>"

definition emptyOCR :: OCRResult where
  "emptyOCR = \<lparr> ocr_text = [], ocr_confidence = 0, words = [] \<rparr>"

definition fiftyLetters :: OCRResult where
  "fiftyLetters = \<lparr> ocr_text = replicate 50 97, ocr_confidence = 90, words = [] \<rparr>"

definition someDensity :: TextDensityAnalysis where
  "someDensity =
     \<lparr> totalTextArea = 20000, imageArea = 1000000, textCoveragePercentage = 2,
       textBlockCount = 1, averageWordConfidence = 90, wordsDetected = 8 \<rparr>"

definition noCodes :: BarcodeQRAnalysis where
  "noCodes = \<lparr> hasBarcode = False, hasQRCode = False, bq_confidence = 0.3 \<rparr>"

text \<open>Thirty words of 100 by 20 pixels, one in each 200 by 200 cell of three rows of ten
  cells, as an OCR pass over an image of 2000 by 2000 pixels can return them.\<close>

definition gridWord :: "nat \<Rightarrow> nat \<Rightarrow> OCRWord" where
  "gridWord i j =
     \<lparr> word_text = str ''x'', word_confidence = 90,
       bbox = \<lparr> x0 = 200 * real i + 50, y0 = 200 * real j + 90,
                x1 = 200 * real i + 150, y1 = 200 * real j + 110 \<rparr> \<rparr>"

definition gridOCR :: OCRResult where
  "gridOCR =
     \<lparr> ocr_text = str ''x'', ocr_confidence = 90,
       words = concat (map (\<lambda>j. map (\<lambda>i. gridWord i j) [0..<10]) [0..<3]) \<rparr>"

text \<open>Two words that each cover an image of 100 by 100 pixels.\<close>

definition overlapWord :: OCRWord where
  "overlapWord =
     \<lparr> word_text = str ''x'', word_confidence = 90,
       bbox = \<lparr> x0 = 0, y0 = 0, x1 = 100, y1 = 100 \<rparr> \<rparr>"

definition overlapOCR :: OCRResult where
  "overlapOCR =
     \<lparr> ocr_text = str ''x x'', ocr_confidence = 90, words = [overlapWord, overlapWord] \<rparr>"

text \<open>Two images with different identifiers, a pipeline that fails on every image because
  the OCR pool has no worker, and one that fails on the first image only.\<close>

definition sampleImage :: ProductImage where
  "sampleImage =
     \<lparr> filePixelHeight = 1000, filePixelWidth = 1000, imageType = NORMAL,
       imageHash = str ''test-hash'', referencedFileURL = str ''middle/a.jpg'',
       baseUrl = str ''https://example.org/'', isAbsoluteUrl = False,
       image_id = str ''698ddb3e'', canBeFix = None, isValid = None \<rparr>"

definition otherImage :: ProductImage where
  "otherImage =
     sampleImage \<lparr> referencedFileURL := str ''middle/b.jpg'', image_id := str ''698ddb3f'' \<rparr>"

definition ocrFails :: "ProductImage \<Rightarrow> jsstring + LabelDetectionResult" where
  "ocrFails img = Inl (str ''Error: No hay workers disponibles en el pool'')"

definition failsOnSample :: "ProductImage \<Rightarrow> jsstring + LabelDetectionResult" where
  "failsOnSample img =
     (if image_id img = image_id sampleImage
      then Inl (str ''Error: No hay workers disponibles en el pool'')
      else Inr (detectLabelFromOCR exampleFormat emptyOCR
                  (filePixelWidth img) (filePixelHeight img) 12))"

section \<open>The scoring engine follows its table\<close>

lemma fold_applyRow:
  "fold applyRow rows st = (fst st + totalScore rows, snd st @ justifications rows)"
proof (induction rows arbitrary: st)
  case Nil
  show ?case by (simp add: totalScore_def justifications_def firedRows_def)
next
  case (Cons row rows)
  have "fold applyRow (row # rows) st = fold applyRow rows (applyRow row st)"
    by simp
  also have "\<dots> = (fst (applyRow row st) + totalScore rows,
      snd (applyRow row st) @ justifications rows)"
    by (rule Cons.IH)
  also have "\<dots> = (fst st + totalScore (row # rows), snd st @ justifications (row # rows))"
    by (simp add: applyRow_def award_def totalScore_def justifications_def firedRows_def)
  finally show ?case .
qed

lemma criterion0_rows:
  "criterion0 F ocr st =
     fold applyRow (take 2 (criteriaTable F td bq nut ocr)) st"
  by (simp add: criterion0_def criteriaTable_def applyRow_def Let_def)

lemma criterion1_rows:
  "criterion1 F td st = fold applyRow (take 1 (drop 2 (criteriaTable F td bq nut ocr))) st"
  by (simp add: criterion1_def criteriaTable_def applyRow_def Let_def)

lemma criterion2_rows:
  "criterion2 F td st = fold applyRow (take 3 (drop 3 (criteriaTable F td bq nut ocr))) st"
  by (simp add: criterion2_def criteriaTable_def applyRow_def Let_def)

lemma criterion3_rows:
  "criterion3 F td st = fold applyRow (take 4 (drop 6 (criteriaTable F td bq nut ocr))) st"
  by (simp add: criterion3_def criteriaTable_def applyRow_def Let_def)

lemma criterion4to8_rows:
  "criterion8 bq (criterion7 ocr (criterion6 ocr (criterion5 ocr (criterion4 nut st)))) =
     fold applyRow (drop 10 (criteriaTable F td bq nut ocr)) st"
  by (simp add: criterion4_def criterion5_def criterion6_def criterion7_def criterion8_def
      criteriaTable_def applyRow_def Let_def)

lemma table_split:
  "criteriaTable F td bq nut ocr =
     take 2 (criteriaTable F td bq nut ocr) @ take 1 (drop 2 (criteriaTable F td bq nut ocr)) @
     take 3 (drop 3 (criteriaTable F td bq nut ocr)) @ take 4 (drop 6 (criteriaTable F td bq nut ocr)) @
     drop 10 (criteriaTable F td bq nut ocr)"
  by (simp add: criteriaTable_def Let_def)

lemma scoreAndReasons_table:
  "scoreAndReasons F td bq nut ocr =
     (totalScore (criteriaTable F td bq nut ocr), justifications (criteriaTable F td bq nut ocr))"
proof -
  let ?T = "criteriaTable F td bq nut ocr"
  have "scoreAndReasons F td bq nut ocr =
      fold applyRow (drop 10 ?T) (fold applyRow (take 4 (drop 6 ?T))
        (fold applyRow (take 3 (drop 3 ?T)) (fold applyRow (take 1 (drop 2 ?T))
          (fold applyRow (take 2 ?T) (0, [])))))"
    unfolding scoreAndReasons_def
    by (simp only: criterion4to8_rows[of bq ocr nut _ F td] criterion3_rows[of F td _ bq nut ocr]
        criterion2_rows[of F td _ bq nut ocr] criterion1_rows[of F td _ bq nut ocr]
        criterion0_rows[of F ocr _ td bq nut])
  also have "\<dots> = fold applyRow ?T (0, [])"
    by (subst (6) table_split) (simp only: fold_append comp_apply)
  finally show ?thesis by (simp add: fold_applyRow)
qed

text \<open>Claim C1. For every density analysis, barcode analysis, nutrition flag and OCR result,
  \<open>calculateLabelScore\<close> returns the confidence \<open>min (total / 100) 1\<close>, says that the image
  is a label exactly when the total is at least 45, and returns as reasoning the
  justifications of the rows that fired, in the order of the table and joined by a
  semicolon and a space, or the fixed sentence when no row fired; the total is the sum of
  the points of the rows that fired.\<close>

theorem calculateLabelScore_table:
  "calculateLabelScore F td bq nut ocr =
     \<lparr> isLabel = (totalScore (criteriaTable F td bq nut ocr) \<ge> 45),
       confidence = min (totalScore (criteriaTable F td bq nut ocr) / 100) 1,
       reasoning =
         (if justifications (criteriaTable F td bq nut ocr) = [] then noCharacteristics
          else join (str ''; '') (justifications (criteriaTable F td bq nut ocr))) \<rparr>"
  by (simp add: calculateLabelScore_def scoreAndReasons_table Let_def)

section \<open>Points of the criteria\<close>

lemma totalScore_append: "totalScore (xs @ ys) = totalScore xs + totalScore ys"
  by (simp add: totalScore_def firedRows_def)

text \<open>Claim C6, as amended. The block of the raw text volume adds exactly 15 points when
  the trimmed OCR text has more than 100 characters, exactly 8 points when it has 51 to
  100 characters, and nothing when it has 50 characters or fewer.\<close>

theorem text_volume_points:
  "fst (criterion0 F ocr st) =
     fst st + (if length (trim (ocr_text ocr)) > 100 then 15
               else if length (trim (ocr_text ocr)) > 50 then 8 else 0)"
  by (simp add: criterion0_def award_def Let_def)

text \<open>Claim C6, as stated, fails on a text of exactly 50 characters: the block adds
  nothing, not 8 points.\<close>

theorem text_volume_fifty:
  "length (trim (ocr_text fiftyLetters)) = 50 \<and>
   fst (criterion0 exampleFormat fiftyLetters (0, [])) = 0 \<and>
   fst (criterion0 exampleFormat fiftyLetters (0, [])) \<noteq> 8"
  by (simp add: fiftyLetters_def criterion0_def award_def Let_def trim_def isWhiteSpace_def)

text \<open>Claim C7. The block of the text coverage adds \<open>min 20 ((ratio / 0.4) * 20)\<close> points
  when \<open>ratio\<close>, the coverage percentage divided by 100, exceeds 0.1, and nothing
  otherwise; at a coverage of 40 percent (ratio 0.4) it adds exactly 20 points and at 80
  percent (ratio 0.8) it adds exactly 20 points as well.\<close>

theorem coverage_points:
  "fst (criterion1 F td st) =
     fst st + (if textCoveragePercentage td / 100 > 0.1
               then min 20 ((textCoveragePercentage td / 100 / 0.4) * 20) else 0) \<and>
   fst (criterion1 F (td\<lparr>textCoveragePercentage := 40\<rparr>) st) = fst st + 20 \<and>
   fst (criterion1 F (td\<lparr>textCoveragePercentage := 80\<rparr>) st) = fst st + 20"
  by (simp add: criterion1_def award_def Let_def)

section \<open>Monotonicity in the word count\<close>

lemma word_rows_mono:
  assumes "wordsDetected td \<le> w'"
  shows "totalScore (take 4 (drop 6 (criteriaTable F td bq nut ocr))) \<le>
         totalScore (take 4 (drop 6 (criteriaTable F (td\<lparr>wordsDetected := w'\<rparr>) bq nut ocr)))"
  using assms by (simp add: criteriaTable_def Let_def totalScore_def firedRows_def)

lemma table_word_split:
  "criteriaTable F td bq nut ocr =
     take 6 (criteriaTable F td bq nut ocr) @ take 4 (drop 6 (criteriaTable F td bq nut ocr)) @
     drop 10 (criteriaTable F td bq nut ocr)"
  by (simp add: criteriaTable_def Let_def)

lemma other_rows_same:
  "take 6 (criteriaTable F (td\<lparr>wordsDetected := w'\<rparr>) bq nut ocr) =
     take 6 (criteriaTable F td bq nut ocr)"
  "drop 10 (criteriaTable F (td\<lparr>wordsDetected := w'\<rparr>) bq nut ocr) =
     drop 10 (criteriaTable F td bq nut ocr)"
  by (simp_all add: criteriaTable_def Let_def)

text \<open>Claim C9. When two inputs of the scoring engine differ in \<open>wordsDetected\<close> only and
  the second has at least as many words as the first, the score of the second is at least
  the score of the first.\<close>

theorem score_mono_wordsDetected:
  assumes "wordsDetected td \<le> w'"
  shows "fst (scoreAndReasons F td bq nut ocr) \<le>
         fst (scoreAndReasons F (td\<lparr>wordsDetected := w'\<rparr>) bq nut ocr)"
proof -
  let ?T = "criteriaTable F td bq nut ocr"
  let ?T' = "criteriaTable F (td\<lparr>wordsDetected := w'\<rparr>) bq nut ocr"
  have "totalScore ?T =
      totalScore (take 6 ?T) + totalScore (take 4 (drop 6 ?T)) + totalScore (drop 10 ?T)"
    by (subst table_word_split) (simp only: totalScore_append add.assoc)
  moreover have "totalScore ?T' =
      totalScore (take 6 ?T) + totalScore (take 4 (drop 6 ?T')) + totalScore (drop 10 ?T)"
    by (subst table_word_split) (simp only: totalScore_append add.assoc other_rows_same)
  ultimately have "totalScore ?T \<le> totalScore ?T'"
    using word_rows_mono[OF assms, of F bq nut ocr] by linarith
  then show ?thesis by (simp add: scoreAndReasons_table)
qed

theorem score_mono_wordsDetected_witness:
  "wordsDetected someDensity \<le> 20 \<and>
   fst (scoreAndReasons exampleFormat someDensity noCodes False emptyOCR) \<le>
   fst (scoreAndReasons exampleFormat (someDensity\<lparr>wordsDetected := 20\<rparr>) noCodes False emptyOCR)"
proof -
  have h: "wordsDetected someDensity \<le> 20" by (simp add: someDensity_def)
  show ?thesis
    using h score_mono_wordsDetected [OF h, of exampleFormat noCodes False emptyOCR] by simp
qed

section \<open>levenshteinDistance computes the edit distance\<close>

lemma fold_upt_invariant:
  assumes step: "\<And>k m. lo \<le> k \<Longrightarrow> k < hi \<Longrightarrow> P k m \<Longrightarrow> P (Suc k) (f k m)"
    and "lo \<le> hi" and "P lo m"
  shows "P hi (fold f [lo..<hi] m)"
  using assms
proof (induction hi)
  case 0
  then show ?case by simp
next
  case (Suc hi)
  show ?case
  proof (cases "lo = Suc hi")
    case True
    with Suc.prems show ?thesis by simp
  next
    case False
    with Suc.prems have le: "lo \<le> hi" by simp
    have "P hi (fold f [lo..<hi] m)"
      using Suc.prems le by (intro Suc.IH) auto
    then have "P (Suc hi) (f hi (fold f [lo..<hi] m))"
      using Suc.prems(1)[of hi] le by simp
    then show ?thesis using le by simp
  qed
qed

lemma setCell_shape:
  "wellShaped m rows cols \<Longrightarrow> wellShaped (setCell m i j v) rows cols"
  unfolding wellShaped_def setCell_def
proof (intro conjI allI impI)
  assume h: "length m = rows \<and> (\<forall>i<rows. length (m ! i) = cols)"
  then show "length (m[i := (m ! i)[j := v]]) = rows" by simp
  fix k assume "k < rows"
  with h show "length (m[i := (m ! i)[j := v]] ! k) = cols"
    by (cases "k = i") simp_all
qed

lemma setCell_nth:
  "wellShaped m rows cols \<Longrightarrow> i < rows \<Longrightarrow> j < cols \<Longrightarrow> i' < rows \<Longrightarrow> j' < cols \<Longrightarrow>
   setCell m i j v ! i' ! j' = (if i' = i \<and> j' = j then v else m ! i' ! j')"
  by (auto simp: wellShaped_def setCell_def nth_list_update)

lemma levRec_zero_right [simp]: "levRec a b i 0 = i"
  by (cases i) simp_all

lemma levRec_sym: "levRec a b i j = levRec b a j i"
  by (induction a b i j rule: levRec.induct) (auto simp: min.commute eq_commute)

lemma levRec_step_up:
  "levRec a b i (Suc j) \<le> levRec a b i j + 1" "levRec a b (Suc i) j \<le> levRec a b i j + 1"
  by (cases i; cases j; simp)+

lemma levRec_step_down_row: "levRec a b i j \<le> levRec a b (Suc i) j + 1"
proof (induction j)
  case 0
  show ?case by simp
next
  case (Suc j)
  from Suc levRec_step_up(1)[of a b i j] show ?case
    by (simp add: min_def)
qed

lemma levRec_step_down_col: "levRec a b i j \<le> levRec a b i (Suc j) + 1"
proof (induction i)
  case 0
  show ?case by simp
next
  case (Suc i)
  from Suc levRec_step_up(2)[of a b i j] show ?case
    by (simp add: min_def)
qed

lemma levRec_equal_chars:
  assumes "a ! i = b ! j"
  shows "levRec a b (Suc i) (Suc j) = levRec a b i j"
  using assms levRec_step_down_row[of a b i "Suc j"] levRec_step_down_col[of a b "Suc i" j]
    levRec_step_down_row[of a b i j] levRec_step_down_col[of a b i j]
  by (simp add: min_def)

lemma levRec_different_chars:
  assumes "a ! i \<noteq> b ! j"
  shows "levRec a b (Suc i) (Suc j) =
     min (levRec a b i j + 1) (min (levRec a b (Suc i) j + 1) (levRec a b i (Suc j) + 1))"
  using assms by (simp add: min_def)

lemma newMatrix_shape: "wellShaped (newMatrix len1 len2) (Suc len2) (Suc len1)"
  unfolding wellShaped_def newMatrix_def
  by (simp del: replicate.simps)

lemma initFirstColumn_result:
  assumes "wellShaped m (Suc len2) (Suc len1)"
  shows "wellShaped (initFirstColumn len2 m) (Suc len2) (Suc len1) \<and>
         (\<forall>i\<le>len2. initFirstColumn len2 m ! i ! 0 = i)"
proof -
  have "wellShaped (fold (\<lambda>i m. setCell m i 0 i) [0..<Suc len2] m) (Suc len2) (Suc len1) \<and>
      (\<forall>i. i < Suc len2 \<longrightarrow> fold (\<lambda>i m. setCell m i 0 i) [0..<Suc len2] m ! i ! 0 = i)"
  proof (rule fold_upt_invariant
      [where P = "\<lambda>k m. wellShaped m (Suc len2) (Suc len1) \<and> (\<forall>i. i < k \<longrightarrow> m ! i ! 0 = i)"])
    fix k m
    assume k: "k < Suc len2"
      and h: "wellShaped m (Suc len2) (Suc len1) \<and> (\<forall>i. i < k \<longrightarrow> m ! i ! 0 = i)"
    have "setCell m k 0 k ! i ! 0 = i" if "i < Suc k" for i
      using that h k
      by (subst setCell_nth[where rows = "Suc len2" and cols = "Suc len1"]) auto
    then show "wellShaped (setCell m k 0 k) (Suc len2) (Suc len1) \<and>
        (\<forall>i. i < Suc k \<longrightarrow> setCell m k 0 k ! i ! 0 = i)"
      using h by (blast intro: setCell_shape)
  next
    show "0 \<le> Suc len2" by simp
    show "wellShaped m (Suc len2) (Suc len1) \<and> (\<forall>i. i < 0 \<longrightarrow> m ! i ! 0 = i)"
      using assms by simp
  qed
  then show ?thesis
    unfolding initFirstColumn_def by (simp add: less_Suc_eq_le del: upt_Suc)
qed

lemma initFirstRow_result:
  assumes "wellShaped m (Suc len2) (Suc len1)" and "\<forall>i\<le>len2. m ! i ! 0 = i"
  shows "wellShaped (initFirstRow len1 m) (Suc len2) (Suc len1) \<and>
         (\<forall>i\<le>len2. initFirstRow len1 m ! i ! 0 = i) \<and>
         (\<forall>j\<le>len1. initFirstRow len1 m ! 0 ! j = j)"
proof -
  let ?f = "\<lambda>j m. setCell m 0 j j"
  have "wellShaped (fold ?f [0..<Suc len1] m) (Suc len2) (Suc len1) \<and>
      (\<forall>i. i \<le> len2 \<longrightarrow> fold ?f [0..<Suc len1] m ! i ! 0 = i) \<and>
      (\<forall>j. j < Suc len1 \<longrightarrow> fold ?f [0..<Suc len1] m ! 0 ! j = j)"
  proof (rule fold_upt_invariant
      [where P = "\<lambda>k m. wellShaped m (Suc len2) (Suc len1) \<and>
         (\<forall>i. i \<le> len2 \<longrightarrow> m ! i ! 0 = i) \<and> (\<forall>j. j < k \<longrightarrow> m ! 0 ! j = j)"])
    fix k m
    assume k: "k < Suc len1"
      and h: "wellShaped m (Suc len2) (Suc len1) \<and>
         (\<forall>i. i \<le> len2 \<longrightarrow> m ! i ! 0 = i) \<and> (\<forall>j. j < k \<longrightarrow> m ! 0 ! j = j)"
    have a: "setCell m 0 k k ! i ! 0 = i" if "i \<le> len2" for i
      using that h k
      by (subst setCell_nth[where rows = "Suc len2" and cols = "Suc len1"]) auto
    have b: "setCell m 0 k k ! 0 ! j = j" if "j < Suc k" for j
      using that h k
      by (subst setCell_nth[where rows = "Suc len2" and cols = "Suc len1"]) auto
    show "wellShaped (setCell m 0 k k) (Suc len2) (Suc len1) \<and>
        (\<forall>i. i \<le> len2 \<longrightarrow> setCell m 0 k k ! i ! 0 = i) \<and>
        (\<forall>j. j < Suc k \<longrightarrow> setCell m 0 k k ! 0 ! j = j)"
      using a b h by (blast intro: setCell_shape)
  next
    show "0 \<le> Suc len1" by simp
    show "wellShaped m (Suc len2) (Suc len1) \<and>
        (\<forall>i. i \<le> len2 \<longrightarrow> m ! i ! 0 = i) \<and> (\<forall>j. j < 0 \<longrightarrow> m ! 0 ! j = j)"
      using assms by simp
  qed
  then show ?thesis
    unfolding initFirstRow_def by (simp add: less_Suc_eq_le del: upt_Suc)
qed

lemma init_cellsDone:
  "cellsDone str1 str2
     (initFirstRow (length str1) (initFirstColumn (length str2)
        (newMatrix (length str1) (length str2)))) 1 1"
proof -
  define m0 where "m0 = initFirstColumn (length str2) (newMatrix (length str1) (length str2))"
  define m1 where "m1 = initFirstRow (length str1) m0"
  have c: "wellShaped m0 (Suc (length str2)) (Suc (length str1)) \<and>
      (\<forall>i\<le>length str2. m0 ! i ! 0 = i)"
    unfolding m0_def by (rule initFirstColumn_result) (rule newMatrix_shape)
  have r: "wellShaped m1 (Suc (length str2)) (Suc (length str1)) \<and>
      (\<forall>i\<le>length str2. m1 ! i ! 0 = i) \<and> (\<forall>j\<le>length str1. m1 ! 0 ! j = j)"
    unfolding m1_def using c by (intro initFirstRow_result) simp_all
  have "cellsDone str1 str2 m1 1 1"
    unfolding cellsDone_def
  proof (intro conjI allI impI)
    show "wellShaped m1 (Suc (length str2)) (Suc (length str1))" using r by simp
    fix i j
    assume ij: "i \<le> length str2" "j \<le> length str1"
      and d: "i = 0 \<or> j = 0 \<or> i < 1 \<or> (i = 1 \<and> j < 1)"
    from d have "i = 0 \<or> j = 0" by auto
    then show "m1 ! i ! j = levRec str2 str1 i j"
      using r ij by auto
  qed
  then show ?thesis by (simp only: m1_def m0_def)
qed

lemma fillCell_cellsDone:
  assumes inv: "cellsDone str1 str2 m i j"
    and i: "1 \<le> i" "i \<le> length str2" and j: "1 \<le> j" "j \<le> length str1"
  shows "cellsDone str1 str2 (fillCell str1 str2 i j m) i (Suc j)"
proof -
  obtain i' j' where ij: "i = Suc i'" "j = Suc j'"
    using i j by (cases i; cases j) auto
  let ?L = "levRec str2 str1"
  from inv have shape: "wellShaped m (Suc (length str2)) (Suc (length str1))"
    unfolding cellsDone_def by simp
  have known: "m ! r ! c = ?L r c"
    if "r \<le> length str2" "c \<le> length str1" "r = 0 \<or> c = 0 \<or> r < i \<or> (r = i \<and> c < j)" for r c
    using inv that unfolding cellsDone_def by blast
  have diag: "m ! i' ! j' = ?L i' j'"
    using i j ij by (intro known) auto
  have left: "m ! i ! j' = ?L i j'"
    using i j ij by (intro known) auto
  have top: "m ! i' ! j = ?L i' j"
    using i j ij by (intro known) auto
  have val: "fillCell str1 str2 i j m = setCell m i j (?L i j)"
  proof (cases "str2 ! i' = str1 ! j'")
    case True
    have "?L i j = ?L i' j'"
      unfolding ij using True by (rule levRec_equal_chars)
    then show ?thesis
      using diag True by (simp add: fillCell_def ij del: levRec.simps)
  next
    case False
    have "?L i j = min (?L i' j' + 1) (min (?L i j' + 1) (?L i' j + 1))"
      unfolding ij using False by (rule levRec_different_chars)
    then show ?thesis
      using diag left top False by (simp add: fillCell_def Let_def ij del: levRec.simps)
  qed
  show ?thesis
    unfolding cellsDone_def val
  proof (intro conjI allI impI)
    show "wellShaped (setCell m i j (?L i j)) (Suc (length str2)) (Suc (length str1))"
      using shape by (rule setCell_shape)
    fix r c
    assume rc: "r \<le> length str2" "c \<le> length str1"
      and d: "r = 0 \<or> c = 0 \<or> r < i \<or> (r = i \<and> c < Suc j)"
    have upd: "setCell m i j (?L i j) ! r ! c = (if r = i \<and> c = j then ?L i j else m ! r ! c)"
      using shape i j rc by (intro setCell_nth) auto
    show "setCell m i j (?L i j) ! r ! c = ?L r c"
    proof (cases "r = i \<and> c = j")
      case True
      with upd show ?thesis by simp
    next
      case False
      have "m ! r ! c = ?L r c"
        using rc d False by (intro known) auto
      with upd False show ?thesis by simp
    qed
  qed
qed

lemma cellsDone_next_row:
  assumes "cellsDone str1 str2 m i (Suc (length str1))"
  shows "cellsDone str1 str2 m (Suc i) 1"
  unfolding cellsDone_def
proof (intro conjI allI impI)
  show "wellShaped m (Suc (length str2)) (Suc (length str1))"
    using assms unfolding cellsDone_def by simp
  fix r c
  assume rc: "r \<le> length str2" "c \<le> length str1"
    and d: "r = 0 \<or> c = 0 \<or> r < Suc i \<or> (r = Suc i \<and> c < 1)"
  from rc d have "r = 0 \<or> c = 0 \<or> r < i \<or> (r = i \<and> c < Suc (length str1))"
    by auto
  with assms rc show "m ! r ! c = levRec str2 str1 r c"
    unfolding cellsDone_def by blast
qed

lemma fillRow_cellsDone:
  assumes inv: "cellsDone str1 str2 m i 1" and i: "1 \<le> i" "i \<le> length str2"
  shows "cellsDone str1 str2 (fillRow str1 str2 i m) (Suc i) 1"
proof -
  have "cellsDone str1 str2 (fold (fillCell str1 str2 i) [1..<Suc (length str1)] m)
      i (Suc (length str1))"
  proof (rule fold_upt_invariant [where P = "\<lambda>k m. cellsDone str1 str2 m i k"])
    fix k m
    assume "1 \<le> k" "k < Suc (length str1)" "cellsDone str1 str2 m i k"
    then show "cellsDone str1 str2 (fillCell str1 str2 i k m) i (Suc k)"
      using i by (intro fillCell_cellsDone) auto
  next
    show "1 \<le> Suc (length str1)" by simp
    show "cellsDone str1 str2 m i 1" by (rule inv)
  qed
  then show ?thesis
    unfolding fillRow_def by (rule cellsDone_next_row)
qed

lemma fill_cellsDone:
  assumes "cellsDone str1 str2 m 1 1"
  shows "cellsDone str1 str2 (fold (fillRow str1 str2) [1..<Suc (length str2)] m)
           (Suc (length str2)) 1"
proof (rule fold_upt_invariant [where P = "\<lambda>k m. cellsDone str1 str2 m k 1"])
  fix k m
  assume "1 \<le> k" "k < Suc (length str2)" "cellsDone str1 str2 m k 1"
  then show "cellsDone str1 str2 (fillRow str1 str2 k m) (Suc k) 1"
    by (intro fillRow_cellsDone) auto
next
  show "1 \<le> Suc (length str2)" by simp
  show "cellsDone str1 str2 m 1 1" by (rule assms)
qed

lemma levenshteinDistance_levRec:
  "levenshteinDistance str1 str2 = levRec str2 str1 (length str2) (length str1)"
proof -
  define filled where "filled = fold (fillRow str1 str2) [1..<Suc (length str2)]
        (initFirstRow (length str1) (initFirstColumn (length str2)
          (newMatrix (length str1) (length str2))))"
  have "cellsDone str1 str2 filled (Suc (length str2)) 1"
    unfolding filled_def by (rule fill_cellsDone) (rule init_cellsDone)
  then have "filled ! length str2 ! length str1 = levRec str2 str1 (length str2) (length str1)"
    unfolding cellsDone_def by auto
  then show ?thesis
    by (simp only: levenshteinDistance_def Let_def filled_def)
qed

lemma levenshteinDistance_editDistance:
  "levenshteinDistance str1 str2 = editDistance str1 str2"
  by (simp add: levenshteinDistance_levRec editDistance_def levRec_sym[of str2 str1])

section \<open>The recurrence is the least number of edits\<close>

lemma edits_insert_all: "edits [] ys (length ys)"
  by (induction ys rule: rev_induct) (auto intro: edits.intros)

lemma edits_delete_all: "edits xs [] (length xs)"
  by (induction xs rule: rev_induct) (auto intro: edits.intros)

lemma levRec_edits:
  assumes "i \<le> length a" and "j \<le> length b"
  shows "edits (take i a) (take j b) (levRec a b i j)"
  using assms
proof (induction a b i j rule: levRec.induct)
  case (1 a b j)
  then show ?case using edits_insert_all[of "take j b"] by simp
next
  case (2 a b i)
  then show ?case using edits_delete_all[of "take (Suc i) a"] by simp
next
  case (3 a b i j)
  then have i: "i < length a" and j: "j < length b" by simp_all
  have ta: "take (Suc i) a = take i a @ [a ! i]"
    using i by (simp add: take_Suc_conv_app_nth)
  have tb: "take (Suc j) b = take j b @ [b ! j]"
    using j by (simp add: take_Suc_conv_app_nth)
  have del: "edits (take (Suc i) a) (take (Suc j) b) (levRec a b i (Suc j) + 1)"
    unfolding ta using "3.IH"(1) "3.prems" i
    by (simp add: edits.delete)
  have ins: "edits (take (Suc i) a) (take (Suc j) b) (levRec a b (Suc i) j + 1)"
    unfolding tb using "3.IH"(2) "3.prems" j
    by (simp add: edits.insert)
  have mat: "edits (take (Suc i) a) (take (Suc j) b)
      (levRec a b i j + (if a ! i = b ! j then 0 else 1))"
    unfolding ta tb using "3.IH"(3) i j
    by (auto intro: edits.keep edits.substitute)
  show ?case
    using del ins mat by (simp add: min_def)
qed

lemma levRec_prefix:
  assumes "i \<le> length a" and "j \<le> length b"
  shows "levRec (a @ a') (b @ b') i j = levRec a b i j"
  using assms
proof (induction a b i j rule: levRec.induct)
  case (3 a b i j)
  then show ?case by (simp add: nth_append)
qed simp_all

lemma edits_lower_bound:
  assumes "edits xs ys n"
  shows "editDistance xs ys \<le> n"
  using assms
proof (induction rule: edits.induct)
  case finished
  show ?case by (simp add: editDistance_def)
next
  case (keep xs ys n x)
  have "editDistance (xs @ [x]) (ys @ [x]) \<le>
      levRec (xs @ [x]) (ys @ [x]) (length xs) (length ys)"
    by (simp add: editDistance_def)
  also have "\<dots> = editDistance xs ys"
    by (simp add: levRec_prefix editDistance_def)
  finally show ?case using keep.IH by simp
next
  case (substitute xs ys n x y)
  have "editDistance (xs @ [x]) (ys @ [y]) \<le>
      levRec (xs @ [x]) (ys @ [y]) (length xs) (length ys) + 1"
    by (auto simp: editDistance_def intro: le_SucI min.coboundedI2)
  also have "\<dots> = editDistance xs ys + 1"
    by (simp add: levRec_prefix editDistance_def)
  finally show ?case using substitute.IH by simp
next
  case (delete xs ys n x)
  have "editDistance (xs @ [x]) ys \<le> levRec (xs @ [x]) ys (length xs) (length ys) + 1"
    using levRec_step_up(2)[of "xs @ [x]" ys "length xs" "length ys"]
    by (simp add: editDistance_def)
  also have "\<dots> = editDistance xs ys + 1"
    using levRec_prefix[of "length xs" xs "length ys" ys "[x]" "[]"]
    by (simp add: editDistance_def)
  finally show ?case using delete.IH by simp
next
  case (insert xs ys n y)
  have "editDistance xs (ys @ [y]) \<le> levRec xs (ys @ [y]) (length xs) (length ys) + 1"
    using levRec_step_up(1)[of xs "ys @ [y]" "length xs" "length ys"]
    by (simp add: editDistance_def)
  also have "\<dots> = editDistance xs ys + 1"
    using levRec_prefix[of "length xs" xs "length ys" ys "[]" "[y]"]
    by (simp add: editDistance_def)
  finally show ?case using insert.IH by simp
qed

lemma editDistance_edits: "edits a b (editDistance a b)"
  using levRec_edits[of "length a" a "length b" b] by (simp add: editDistance_def)

section \<open>similarity\<close>

lemma editDistance_sym: "editDistance a b = editDistance b a"
  by (simp add: editDistance_def levRec_sym[of a b])

lemma levRec_same: "levRec a a i i = 0"
proof (induction i)
  case 0
  show ?case by simp
next
  case (Suc i)
  have "levRec a a (Suc i) (Suc i) = levRec a a i i"
    by (rule levRec_equal_chars) simp
  with Suc show ?case by simp
qed

lemma editDistance_same: "editDistance a a = 0"
  by (simp add: editDistance_def levRec_same)

lemma similarity_longer_first:
  assumes "length s2 < length s1"
  shows "similarity s1 s2 =
     (real (length s1) - real (caseInsensitiveEditDistance s1 s2)) / real (length s1)"
proof -
  from assms have "s1 \<noteq> []" by auto
  with assms show ?thesis
    by (simp add: similarity_def Let_def levenshteinDistance_editDistance
        caseInsensitiveEditDistance_def)
qed

lemma similarity_longer_second:
  assumes "length s1 \<le> length s2" and "s2 \<noteq> []"
  shows "similarity s1 s2 =
     (real (length s2) - real (caseInsensitiveEditDistance s1 s2)) / real (length s2)"
  using assms
  by (simp add: similarity_def Let_def levenshteinDistance_editDistance
      caseInsensitiveEditDistance_def editDistance_sym[of "toLowerCase s2"])

text \<open>Claim C8. For all strings \<open>a\<close> and \<open>b\<close>, \<open>similarity a b\<close> is 1 minus the
  case-insensitive edit distance of the two strings divided by the length of the longer
  one, where the distance is the least number of insertions, deletions and substitutions
  of single characters that turn the one lower-cased string into the other; for two empty
  strings the similarity is 1, and \<open>similarity s s\<close> is 1 for every string \<open>s\<close>.\<close>

theorem similarity_formula:
  "similarity a b =
     (if a = [] \<and> b = [] then 1
      else 1 - real (caseInsensitiveEditDistance a b) / real (max (length a) (length b))) \<and>
   edits (toLowerCase a) (toLowerCase b) (caseInsensitiveEditDistance a b) \<and>
   (\<forall>n. edits (toLowerCase a) (toLowerCase b) n \<longrightarrow> caseInsensitiveEditDistance a b \<le> n) \<and>
   similarity [] [] = 1 \<and>
   similarity s s = 1"
proof (intro conjI allI impI)
  show "similarity a b =
     (if a = [] \<and> b = [] then 1
      else 1 - real (caseInsensitiveEditDistance a b) / real (max (length a) (length b)))"
  proof (cases "length b < length a")
    case True
    then have "max (length a) (length b) = length a" "a \<noteq> []" by auto
    with True show ?thesis
      by (simp add: similarity_longer_first diff_divide_distrib)
  next
    case False
    show ?thesis
    proof (cases "b = []")
      case True
      with False show ?thesis by (simp add: similarity_def)
    next
      case nonempty: False
      from False have "max (length a) (length b) = length b" by auto
      with False nonempty show ?thesis
        by (simp add: similarity_longer_second diff_divide_distrib)
    qed
  qed
  show "edits (toLowerCase a) (toLowerCase b) (caseInsensitiveEditDistance a b)"
    unfolding caseInsensitiveEditDistance_def by (rule editDistance_edits)
  show "caseInsensitiveEditDistance a b \<le> n" if "edits (toLowerCase a) (toLowerCase b) n" for n
    unfolding caseInsensitiveEditDistance_def using that by (rule edits_lower_bound)
  show "similarity [] [] = 1" by (simp add: similarity_def)
  show "similarity s s = 1"
    by (cases "s = []")
      (simp_all add: similarity_def Let_def levenshteinDistance_editDistance editDistance_same)
qed

theorem similarity_formula_witness:
  "edits (toLowerCase (str ''Cal'')) (toLowerCase (str ''kcal'')) 1 \<and>
   caseInsensitiveEditDistance (str ''Cal'') (str ''kcal'') \<le> 1 \<and>
   similarity (str ''Cal'') (str ''kcal'') =
     1 - real (caseInsensitiveEditDistance (str ''Cal'') (str ''kcal'')) / 4"
proof -
  have h: "edits (toLowerCase (str ''Cal'')) (toLowerCase (str ''kcal'')) 1"
    using edits.keep [OF edits.keep [OF edits.keep [OF edits.insert [OF edits.finished, of 107],
      of 99], of 97], of 108]
    by (simp add: toLowerCase_def lowerUnit_def str_def)
  show ?thesis
    using h similarity_formula [of "str ''Cal''" "str ''kcal''"] by (simp add: str_def)
qed

section \<open>An empty OCR result\<close>

lemma splitWs_nonempty: "splitWs inSep cur s \<noteq> []"
  by (induction s arbitrary: inSep cur) auto

lemma startsWith_empty_text: "startsWith [] k \<longleftrightarrow> k = []"
  by (cases k) simp_all

lemma includesStr_empty_text: "includesStr [] k \<longleftrightarrow> k = []"
  by (simp add: startsWith_empty_text)

lemma editDistance_empty_right: "editDistance a [] = length a"
  by (simp add: editDistance_def)

lemma similarity_empty_word:
  assumes "k \<noteq> []"
  shows "similarity [] k = 0"
  using assms
  by (simp add: similarity_def Let_def levenshteinDistance_editDistance toLowerCase_def
      editDistance_empty_right)

lemma fuzzySearch_empty_text:
  assumes "k \<noteq> []" and "0 < threshold"
  shows "\<not> fuzzySearch [] k threshold"
proof -
  have lower: "toLowerCase k \<noteq> []" using assms(1) by (simp add: toLowerCase_def)
  have parts: "0 < length (splitWhitespace (toLowerCase k))"
    using splitWs_nonempty[of False "[]" "toLowerCase k"] by (simp add: splitWhitespace_def)
  then have "0 < real (length (splitWhitespace (toLowerCase k))) * 0.6" by simp
  then have ceil: "0 < \<lceil>real (length (splitWhitespace (toLowerCase k))) * 0.6\<rceil>"
    by (simp add: ceiling_less_iff[symmetric] del: of_nat_0_less_iff)
  have none: "filter (\<lambda>part. 3 < length part \<and> part = []) ps = []" for ps :: "jsstring list"
    by (induction ps) auto
  have sim: "\<not> threshold \<le> similarity [] (toLowerCase k)"
    using lower assms(2) by (simp add: similarity_empty_word)
  show ?thesis
    using lower ceil sim
    by (simp add: fuzzySearch_def Let_def startsWith_empty_text splitWhitespace_def none
        toLowerCase_def)
qed

lemma keywords_nonempty:
  "\<forall>k\<in>set qrPatterns. k \<noteq> []" "\<forall>k\<in>set barcodePatterns. k \<noteq> []"
  "\<forall>k\<in>set nutritionalKeywords. k \<noteq> []" "\<forall>k\<in>set ingredientKeywords. k \<noteq> []"
  "\<forall>k\<in>set storageKeywords. k \<noteq> []" "\<forall>k\<in>set manufacturerKeywords. k \<noteq> []"
  by (simp_all add: qrPatterns_def barcodePatterns_def nutritionalKeywords_def
      ingredientKeywords_def storageKeywords_def manufacturerKeywords_def str_def)

lemma no_match_in_empty_text:
  assumes "\<forall>k\<in>set ks. k \<noteq> []" and "0 < threshold"
  shows "filter (\<lambda>keyword. fuzzySearch [] keyword threshold) ks = []"
    and "\<not> list_ex (\<lambda>keyword. fuzzySearch [] keyword threshold) ks"
  using assms by (auto simp: filter_empty_conv list_ex_iff fuzzySearch_empty_text)

lemma detectors_empty_text:
  assumes "ocr_text ocr = []"
  shows "\<not> hasIngredients ocr" "\<not> hasStorageInfo ocr" "\<not> hasManufacturerInfo ocr"
    "\<not> hasNutritionalInfo ocr" "\<not> hasBarcode (detectBarcodeQR ocr)"
    "\<not> hasQRCode (detectBarcodeQR ocr)"
proof -
  show "\<not> hasIngredients ocr"
    by (simp add: hasIngredients_def assms no_match_in_empty_text keywords_nonempty)
  show "\<not> hasStorageInfo ocr"
    by (simp add: hasStorageInfo_def assms no_match_in_empty_text keywords_nonempty)
  show "\<not> hasManufacturerInfo ocr"
    by (simp add: hasManufacturerInfo_def assms no_match_in_empty_text keywords_nonempty)
  show "\<not> hasNutritionalInfo ocr"
    by (simp add: hasNutritionalInfo_def assms no_match_in_empty_text keywords_nonempty
        Let_def toLowerCase_def shortNutritionalWords_def partialMatches_def includesCI_def
        startsWith_empty_text str_def)
  show "\<not> hasBarcode (detectBarcodeQR ocr)"
    by (simp add: detectBarcodeQR_def assms no_match_in_empty_text keywords_nonempty Let_def)
  show "\<not> hasQRCode (detectBarcodeQR ocr)"
    by (simp add: detectBarcodeQR_def assms no_match_in_empty_text keywords_nonempty Let_def)
qed

text \<open>Claim C5. For every OCR result with no words and an empty text, \<open>analyzeTextDensity\<close>
  returns a record whose text area, coverage, block count, average confidence and word
  count are all zero, and the scoring engine, run on that record, the barcode analysis and
  the detectors of the same OCR result, ends with score 0, so the image is not classified
  as a label.\<close>

theorem empty_ocr_scores_zero:
  assumes "words ocr = []" and "ocr_text ocr = []"
  shows "analyzeTextDensity ocr w h =
           \<lparr> totalTextArea = 0, imageArea = w * h, textCoveragePercentage = 0,
             textBlockCount = 0, averageWordConfidence = 0, wordsDetected = 0 \<rparr> \<and>
         fst (scoreAndReasons F (analyzeTextDensity ocr w h) (detectBarcodeQR ocr)
                (hasNutritionalInfo ocr) ocr) = 0 \<and>
         \<not> isLabel (calculateLabelScore F (analyzeTextDensity ocr w h) (detectBarcodeQR ocr)
                (hasNutritionalInfo ocr) ocr) \<and>
         \<not> isProductLabel (detectLabelFromOCR F ocr w h t)"
proof -
  have density: "analyzeTextDensity ocr w h =
      \<lparr> totalTextArea = 0, imageArea = w * h, textCoveragePercentage = 0,
        textBlockCount = 0, averageWordConfidence = 0, wordsDetected = 0 \<rparr>"
    using assms by (simp add: analyzeTextDensity_def trim_def)
  have score: "scoreAndReasons F (analyzeTextDensity ocr w h) (detectBarcodeQR ocr)
      (hasNutritionalInfo ocr) ocr = (0, [])"
    unfolding density scoreAndReasons_def
    using detectors_empty_text[OF assms(2)] assms(2)
    by (simp add: criterion0_def criterion1_def criterion2_def criterion3_def criterion4_def
        criterion5_def criterion6_def criterion7_def criterion8_def trim_def)
  show ?thesis
    using density score by (simp add: calculateLabelScore_def detectLabelFromOCR_def Let_def)
qed

theorem empty_ocr_scores_zero_witness:
  "words emptyOCR = [] \<and> ocr_text emptyOCR = [] \<and>
   analyzeTextDensity emptyOCR 1000 1000 =
     \<lparr> totalTextArea = 0, imageArea = 1000 * 1000, textCoveragePercentage = 0,
       textBlockCount = 0, averageWordConfidence = 0, wordsDetected = 0 \<rparr> \<and>
   fst (scoreAndReasons exampleFormat (analyzeTextDensity emptyOCR 1000 1000)
          (detectBarcodeQR emptyOCR) (hasNutritionalInfo emptyOCR) emptyOCR) = 0 \<and>
   \<not> isProductLabel (detectLabelFromOCR exampleFormat emptyOCR 1000 1000 12)"
proof -
  have h: "words emptyOCR = []" "ocr_text emptyOCR = []" by (simp_all add: emptyOCR_def)
  show ?thesis
    using h empty_ocr_scores_zero [OF h, of 1000 1000 exampleFormat 12] by blast
qed

section \<open>Blocks and words of the density analysis\<close>

lemma nonBlank_Nil [simp]: "\<not> nonBlank []"
  by (simp add: nonBlank_def)

lemma nonBlank_Cons [simp]: "nonBlank (c # l) \<longleftrightarrow> \<not> isWhiteSpace c \<or> nonBlank l"
  by (simp add: nonBlank_def)

lemma nonBlank_snoc [simp]: "nonBlank (l @ [c]) \<longleftrightarrow> nonBlank l \<or> \<not> isWhiteSpace c"
  by (induction l) auto

lemma nonBlank_rev: "nonBlank (rev l) = nonBlank l"
  by (induction l) auto

lemma dropWhile_keeps_nonBlank: "nonBlank (dropWhile isWhiteSpace l) = nonBlank l"
  by (induction l) auto

lemma dropWhile_nonempty_iff: "dropWhile isWhiteSpace l \<noteq> [] \<longleftrightarrow> nonBlank l"
  by (simp add: nonBlank_def list_ex_iff)

lemma trim_nonempty_iff: "trim l \<noteq> [] \<longleftrightarrow> nonBlank l"
proof -
  have "trim l \<noteq> [] \<longleftrightarrow> dropWhile isWhiteSpace (rev (dropWhile isWhiteSpace l)) \<noteq> []"
    by (simp add: trim_def del: dropWhile_eq_Nil_conv)
  also have "\<dots> \<longleftrightarrow> nonBlank (rev (dropWhile isWhiteSpace l))"
    by (rule dropWhile_nonempty_iff)
  also have "\<dots> \<longleftrightarrow> nonBlank l"
    by (simp add: nonBlank_rev dropWhile_keeps_nonBlank)
  finally show ?thesis .
qed

lemma nonBlank_trim: "nonBlank (trim l) = nonBlank l"
  by (simp add: trim_def nonBlank_rev dropWhile_keeps_nonBlank)

lemma newline_is_whitespace: "isWhiteSpace 10"
  by (simp add: isWhiteSpace_def)

lemma lines_le_tokens:
  assumes "inSep \<longrightarrow> cw = []" and "cw \<noteq> [] \<longrightarrow> nonBlank cl"
  shows "length (filter nonBlank (splitOn 10 cl s)) \<le>
         length (filter (\<lambda>w. w \<noteq> []) (splitWs inSep cw s)) +
         (if nonBlank cl \<and> cw = [] then 1 else 0)"
  using assms
proof (induction s arbitrary: inSep cw cl)
  case Nil
  then show ?case by auto
next
  case (Cons c s)
  show ?case
  proof (cases "isWhiteSpace c")
    case False
    then have ne: "c \<noteq> 10" using newline_is_whitespace by auto
    have "length (filter nonBlank (splitOn 10 (cl @ [c]) s)) \<le>
        length (filter (\<lambda>w. w \<noteq> []) (splitWs False (cw @ [c]) s)) +
        (if nonBlank (cl @ [c]) \<and> cw @ [c] = [] then 1 else 0)"
      by (rule Cons.IH) (simp_all add: False)
    then show ?thesis using False ne by simp
  next
    case ws: True
    show ?thesis
    proof (cases "c = 10")
      case True
      have "length (filter nonBlank (splitOn 10 [] s)) \<le>
          length (filter (\<lambda>w. w \<noteq> []) (splitWs True [] s)) +
          (if nonBlank [] \<and> ([]::jsstring) = [] then 1 else 0)"
        by (rule Cons.IH) simp_all
      then show ?thesis using ws True Cons.prems by auto
    next
      case False
      have "length (filter nonBlank (splitOn 10 (cl @ [c]) s)) \<le>
          length (filter (\<lambda>w. w \<noteq> []) (splitWs True [] s)) +
          (if nonBlank (cl @ [c]) \<and> ([]::jsstring) = [] then 1 else 0)"
        by (rule Cons.IH) simp_all
      then show ?thesis using ws False Cons.prems by auto
    qed
  qed
qed

lemma tokens_positive:
  assumes "cw \<noteq> [] \<or> nonBlank s"
  shows "0 < length (filter (\<lambda>w. w \<noteq> []) (splitWs inSep cw s))"
  using assms
proof (induction s arbitrary: inSep cw)
  case Nil
  then show ?case by simp
next
  case (Cons c s)
  then show ?case by (cases "cw = []") auto
qed

lemma plain_text_counts:
  assumes "trim txt \<noteq> []"
  shows "max (length (filter (\<lambda>line. length (trim line) > 0) (splitLines (trim txt))) div 2) 1
         \<le> length (filter (\<lambda>w. length w > 0) (splitWhitespace (trim txt)))"
proof -
  let ?t = "trim txt"
  have nb: "nonBlank ?t" using assms by (simp add: nonBlank_trim trim_nonempty_iff)
  have lines: "filter (\<lambda>line. length (trim line) > 0) (splitLines ?t) =
      filter nonBlank (splitOn 10 [] ?t)"
    by (simp add: splitLines_def trim_nonempty_iff)
  have toks: "filter (\<lambda>w. length w > 0) (splitWhitespace ?t) =
      filter (\<lambda>w. w \<noteq> []) (splitWs False [] ?t)"
    by (simp add: splitWhitespace_def)
  have "length (filter nonBlank (splitOn 10 [] ?t)) \<le>
      length (filter (\<lambda>w. w \<noteq> []) (splitWs False [] ?t)) +
      (if nonBlank [] \<and> ([]::jsstring) = [] then 1 else 0)"
    by (rule lines_le_tokens) simp_all
  then have le: "length (filter nonBlank (splitOn 10 [] ?t)) \<le>
      length (filter (\<lambda>w. w \<noteq> []) (splitWs False [] ?t))"
    by simp
  have pos: "0 < length (filter (\<lambda>w. w \<noteq> []) (splitWs False [] ?t))"
    by (rule tokens_positive) (simp add: nb)
  show ?thesis
    unfolding lines toks using le pos by linarith
qed

lemma fold_insert_image: "fold (\<lambda>p cells. insert (f p) cells) ps S = f ` set ps \<union> S"
  by (induction ps arbitrary: S) auto

lemma countTextBlocks_card:
  "countTextBlocks points iw ih = card (cellOf (iw / 5) (ih / 5) ` set points)"
  by (simp add: countTextBlocks_def Let_def fold_insert_image)

lemma countTextBlocks_bounds:
  assumes "points \<noteq> []"
  shows "1 \<le> countTextBlocks points iw ih" and "countTextBlocks points iw ih \<le> length points"
proof -
  let ?S = "cellOf (iw / 5) (ih / 5) ` set points"
  have "finite ?S" "?S \<noteq> {}" using assms by simp_all
  then have "0 < card ?S" by (simp add: card_gt_0_iff)
  then show "1 \<le> countTextBlocks points iw ih" by (simp add: countTextBlocks_card)
  have "card ?S \<le> card (set points)" by (rule card_image_le) simp
  also have "\<dots> \<le> length points" by (rule card_length)
  finally show "countTextBlocks points iw ih \<le> length points" by (simp add: countTextBlocks_card)
qed

text \<open>Claim C10. For every OCR result and all image dimensions, the record returned by
  \<open>analyzeTextDensity\<close> has a block count that is at most its word count, and the block
  count is zero exactly when the word count is zero.\<close>

theorem blocks_le_words:
  "textBlockCount (analyzeTextDensity ocr w h) \<le> wordsDetected (analyzeTextDensity ocr w h) \<and>
   (textBlockCount (analyzeTextDensity ocr w h) = 0 \<longleftrightarrow>
    wordsDetected (analyzeTextDensity ocr w h) = 0)"
proof (cases "words ocr = []")
  case False
  then have pts: "map wordCenter (words ocr) \<noteq> []" by simp
  from countTextBlocks_bounds[OF pts, of 1000 1000] False show ?thesis
    by (simp add: analyzeTextDensity_def analyzeFromWords_def Let_def)
next
  case True
  show ?thesis
  proof (cases "trim (ocr_text ocr) = []")
    case True
    with \<open>words ocr = []\<close> show ?thesis by (simp add: analyzeTextDensity_def)
  next
    case False
    define blocks where "blocks =
      max (length (filter (\<lambda>line. length (trim line) > 0)
             (splitLines (trim (ocr_text ocr)))) div 2) 1"
    define tokens where "tokens =
      length (filter (\<lambda>w. length w > 0) (splitWhitespace (trim (ocr_text ocr))))"
    have le: "blocks \<le> tokens"
      unfolding blocks_def tokens_def by (rule plain_text_counts[OF False])
    have pos: "1 \<le> blocks" by (simp add: blocks_def)
    have b: "textBlockCount (analyzeTextDensity ocr w h) = real blocks"
      and t: "wordsDetected (analyzeTextDensity ocr w h) = real tokens"
      using True False
      by (simp_all add: analyzeTextDensity_def analyzeFromPlainText_def Let_def blocks_def
          tokens_def)
    show ?thesis
      unfolding b t using le pos by simp
  qed
qed

section \<open>Grid cells and coverage of the density analysis\<close>

lemma wordCenter_grid: "cellOf 200 200 (wordCenter (gridWord i j)) = (int i, int j)"
proof -
  have "\<lfloor>(200 * real i + 50 + (200 * real i + 150)) / 2 / 200\<rfloor> = int i"
    by (simp add: floor_eq_iff field_simps)
  moreover have "\<lfloor>(200 * real j + 90 + (200 * real j + 110)) / 2 / 200\<rfloor> = int j"
    by (simp add: floor_eq_iff field_simps)
  ultimately show ?thesis
    by (simp add: cellOf_def wordCenter_def gridWord_def)
qed

text \<open>Claim C4 at thirty words whose centers lie in thirty different cells of 200 by 200
  pixels: the block count is 30, more than the 25 cells of a grid of 5 by 5.\<close>

theorem grid_words_thirty_blocks:
  "length (words gridOCR) = 30 \<and> textBlockCount (analyzeTextDensity gridOCR 2000 2000) = 30"
proof -
  have cells: "map (\<lambda>p. cellOf 200 200 p) (map wordCenter (words gridOCR)) =
      concat (map (\<lambda>j. map (\<lambda>i. (int i, int j)) [0..<10]) [0..<3])"
    by (simp add: gridOCR_def map_concat comp_def wordCenter_grid del: upt_Suc)
  have "countTextBlocks (map wordCenter (words gridOCR)) 1000 1000 =
      card (set (map (\<lambda>p. cellOf 200 200 p) (map wordCenter (words gridOCR))))"
    by (simp add: countTextBlocks_card image_image)
  also have "\<dots> = 30"
    unfolding cells by (simp add: upt_rec[of _ "numeral _"] upt_rec[of _ "Suc _"])
  finally have "countTextBlocks (map wordCenter (words gridOCR)) 1000 1000 = 30" .
  moreover have "length (words gridOCR) = 30"
    by (simp add: gridOCR_def length_concat comp_def sum_list_triv del: upt_Suc)
  ultimately show ?thesis
    by (simp add: analyzeTextDensity_def analyzeFromWords_def Let_def)
qed

lemma foldl_sum: "foldl (\<lambda>acc x. acc + f x) (a::real) xs = a + sum_list (map f xs)"
  by (induction xs arbitrary: a) (simp_all add: add.assoc)

text \<open>With words, the block count is the number of different cells \<open>(\<lfloor>x / 200\<rfloor>, \<lfloor>y / 200\<rfloor>)\<close>
  of the centers, taken in pixels.\<close>

lemma word_branch_blocks:
  assumes "words ocr \<noteq> []"
  shows "textBlockCount (analyzeTextDensity ocr w h) =
     real (card ((\<lambda>word. cellOf 200 200 (wordCenter word)) ` set (words ocr)))"
  using assms
  by (simp add: analyzeTextDensity_def analyzeFromWords_def Let_def countTextBlocks_card
      image_image)

text \<open>Claim C3. For an image of positive width and height: in the plain-text branch (no
  words, a text that is not blank) the estimated text area is the number of characters of
  the trimmed text times 10 times 15, the coverage is computed from that area capped at
  the image area and so is at most 100, the block count is \<open>max (lines div 2) 1\<close> over the
  lines that are not blank, and the average confidence is the confidence of the engine;
  in the word branch the coverage is the total area of the bounding boxes divided by the
  image area, times 100, with no cap: two words that each cover the whole image give a
  coverage of 200.\<close>

theorem coverage_cap_asymmetry:
  assumes "0 < w" and "0 < h"
  shows "(words ocr = [] \<and> trim (ocr_text ocr) \<noteq> [] \<longrightarrow>
           totalTextArea (analyzeTextDensity ocr w h) =
             real (length (trim (ocr_text ocr))) * 10 * 15 \<and>
           textCoveragePercentage (analyzeTextDensity ocr w h) =
             min (real (length (trim (ocr_text ocr))) * 10 * 15) (w * h) / (w * h) * 100 \<and>
           textCoveragePercentage (analyzeTextDensity ocr w h) \<le> 100 \<and>
           textBlockCount (analyzeTextDensity ocr w h) =
             real (max (length (filter (\<lambda>line. trim line \<noteq> [])
                                  (splitLines (trim (ocr_text ocr)))) div 2) 1) \<and>
           averageWordConfidence (analyzeTextDensity ocr w h) = ocr_confidence ocr) \<and>
         (words ocr \<noteq> [] \<longrightarrow>
           textCoveragePercentage (analyzeTextDensity ocr w h) =
             totalBboxArea ocr / (w * h) * 100) \<and>
         words overlapOCR \<noteq> [] \<and>
         textCoveragePercentage (analyzeTextDensity overlapOCR 100 100) = 200"
proof (intro conjI impI)
  have area: "0 < w * h" using assms by simp
  show "words overlapOCR \<noteq> []" by (simp add: overlapOCR_def)
  show "textCoveragePercentage (analyzeTextDensity overlapOCR 100 100) = 200"
    by (simp add: analyzeTextDensity_def analyzeFromWords_def Let_def overlapOCR_def
        overlapWord_def wordArea_def)
  {
    assume "words ocr \<noteq> []"
    then show "textCoveragePercentage (analyzeTextDensity ocr w h) =
        totalBboxArea ocr / (w * h) * 100"
      by (simp add: analyzeTextDensity_def analyzeFromWords_def Let_def totalBboxArea_def
          foldl_sum)
  }
  {
    assume plain: "words ocr = [] \<and> trim (ocr_text ocr) \<noteq> []"
    let ?est = "real (length (trim (ocr_text ocr))) * 10 * 15"
    have d: "analyzeTextDensity ocr w h = analyzeFromPlainText ocr (w * h) w h"
      using plain by (simp add: analyzeTextDensity_def)
    show "totalTextArea (analyzeTextDensity ocr w h) = ?est"
      by (simp add: d analyzeFromPlainText_def Let_def)
    have cov: "textCoveragePercentage (analyzeTextDensity ocr w h) =
        min (?est / (w * h) * 100) 100"
      by (simp add: d analyzeFromPlainText_def Let_def)
    show "textCoveragePercentage (analyzeTextDensity ocr w h) = min ?est (w * h) / (w * h) * 100"
    proof (cases "?est \<le> w * h")
      case True
      then have "?est / (w * h) * 100 \<le> 100" using area by (simp add: field_simps)
      with True show ?thesis unfolding cov by (simp add: min_def)
    next
      case False
      then have "100 < ?est / (w * h) * 100" using area by (simp add: field_simps)
      with False assms show ?thesis unfolding cov by (simp add: min_def)
    qed
    show "textCoveragePercentage (analyzeTextDensity ocr w h) \<le> 100"
      unfolding cov by simp
    show "textBlockCount (analyzeTextDensity ocr w h) =
        real (max (length (filter (\<lambda>line. trim line \<noteq> [])
                             (splitLines (trim (ocr_text ocr)))) div 2) 1)"
      by (simp add: d analyzeFromPlainText_def Let_def)
    show "averageWordConfidence (analyzeTextDensity ocr w h) = ocr_confidence ocr"
      by (simp add: d analyzeFromPlainText_def Let_def)
  }
qed

theorem coverage_cap_asymmetry_witness:
  "(0::real) < 50 \<and> (0::real) < 100 \<and>
   words fiftyLetters = [] \<and> trim (ocr_text fiftyLetters) \<noteq> [] \<and>
   totalTextArea (analyzeTextDensity fiftyLetters 50 100) = 7500 \<and>
   textCoveragePercentage (analyzeTextDensity fiftyLetters 50 100) = 100 \<and>
   averageWordConfidence (analyzeTextDensity fiftyLetters 50 100) = 90 \<and>
   words overlapOCR \<noteq> [] \<and>
   textCoveragePercentage (analyzeTextDensity overlapOCR 100 100) = 200"
proof -
  have t: "trim (ocr_text fiftyLetters) = replicate 50 97"
    by (simp add: fiftyLetters_def trim_def isWhiteSpace_def)
  have h: "words fiftyLetters = [] \<and> trim (ocr_text fiftyLetters) \<noteq> []"
    by (simp add: t) (simp add: fiftyLetters_def)
  have c: "ocr_confidence fiftyLetters = 90" by (simp add: fiftyLetters_def)
  show ?thesis
    using h c coverage_cap_asymmetry [of 50 100 fiftyLetters] by (simp add: t)
qed

section \<open>The batch coordinator isolates failures\<close>

lemma chunkLoop_returns:
  assumes "0 < chunkSize"
  shows "\<exists>cs. chunkLoop array chunkSize i chunks = Some cs \<and>
              concat cs = concat chunks @ drop i array"
proof (induction "length array - i" arbitrary: i chunks rule: less_induct)
  case less
  show ?case
  proof (cases "i < length array")
    case False
    then show ?thesis by (subst chunkLoop.simps) simp
  next
    case True
    then have "length array - (i + chunkSize) < length array - i"
      using assms by simp
    from less[OF this, of "chunks @ [take chunkSize (drop i array)]"]
    obtain cs where cs: "chunkLoop array chunkSize (i + chunkSize)
          (chunks @ [take chunkSize (drop i array)]) = Some cs"
      and cat: "concat cs = concat (chunks @ [take chunkSize (drop i array)]) @
          drop (i + chunkSize) array"
      by blast
    have "take chunkSize (drop i array) @ drop (i + chunkSize) array = drop i array"
      by (simp add: add.commute[of i chunkSize] flip: drop_drop)
    with cat have "concat cs = concat chunks @ drop i array" by simp
    moreover have "chunkLoop array chunkSize i chunks = Some cs"
      using True cs by (subst chunkLoop.simps) simp
    ultimately show ?thesis by blast
  qed
qed

lemma chunkArray_returns:
  assumes "0 < chunkSize"
  shows "\<exists>cs. chunkArray array chunkSize = Some cs \<and> concat cs = array"
  using chunkLoop_returns[OF assms, of array 0 "[]"] by (simp add: chunkArray_def)

lemma storeSettled_settledResult:
  "storeSettled (img, detectLabel img) results =
     results(image_id img \<mapsto> settledResult detectLabel img)"
  by (simp add: storeSettled_def settledResult_def Let_def split: sum.splits)

lemma processChunk_fold:
  "processChunk detectLabel chunk results =
     fold (\<lambda>img m. m(image_id img \<mapsto> settledResult detectLabel img)) chunk results"
proof -
  have "fold storeSettled (zip chunk (map detectLabel chunk)) results =
      fold (\<lambda>img m. m(image_id img \<mapsto> settledResult detectLabel img)) chunk results"
    by (induction chunk arbitrary: results) (simp_all add: storeSettled_settledResult)
  then show ?thesis by (simp add: processChunk_def)
qed

lemma fold_processChunk:
  "fold (processChunk detectLabel) chunks results =
     fold (\<lambda>img m. m(image_id img \<mapsto> settledResult detectLabel img))
       (concat chunks) results"
  by (induction chunks arbitrary: results) (simp_all add: processChunk_fold)

lemma detectLabelsInBatch_fold:
  assumes "0 < workerPoolSize"
  shows "detectLabelsInBatch detectLabel workerPoolSize images =
     Some (fold (\<lambda>img m. m(image_id img \<mapsto> settledResult detectLabel img))
             images Map.empty)"
proof -
  from chunkArray_returns[OF assms, of images]
  obtain cs where "chunkArray images workerPoolSize = Some cs" "concat cs = images"
    by blast
  then show ?thesis
    by (simp add: detectLabelsInBatch_def fold_processChunk)
qed

lemma fold_update_other:
  assumes "k \<notin> f ` set xs"
  shows "fold (\<lambda>x m. m(f x \<mapsto> g x)) xs m0 k = m0 k"
  using assms by (induction xs arbitrary: m0) auto

lemma fold_update_dom:
  "dom (fold (\<lambda>x m. m(f x \<mapsto> g x)) xs m0) = dom m0 \<union> f ` set xs"
  by (induction xs arbitrary: m0) auto

lemma fold_update_distinct:
  assumes "distinct (map f xs)" and "x \<in> set xs"
  shows "fold (\<lambda>x m. m(f x \<mapsto> g x)) xs m0 (f x) = Some (g x)"
  using assms
proof (induction xs arbitrary: m0)
  case Nil
  then show ?case by simp
next
  case (Cons y ys)
  show ?case
  proof (cases "x \<in> set ys")
    case True
    with Cons show ?thesis by simp
  next
    case False
    with Cons.prems have xy: "x = y" and new: "f y \<notin> f ` set ys" by auto
    have "fold (\<lambda>x m. m(f x \<mapsto> g x)) (y # ys) m0 (f y) =
        fold (\<lambda>x m. m(f x \<mapsto> g x)) ys (m0(f y \<mapsto> g y)) (f y)"
      by simp
    also have "\<dots> = (m0(f y \<mapsto> g y)) (f y)"
      using new by (rule fold_update_other)
    also have "\<dots> = Some (g y)" by simp
    finally show ?thesis unfolding xy .
  qed
qed

text \<open>Claim C2, as amended. For a positive size of the worker pool and a batch of \<open>N\<close>
  images with pairwise different identifiers, \<open>detectLabelsInBatch\<close> returns a map with
  exactly \<open>N\<close> entries, one per image: an image whose pipeline throws is mapped to a
  result with \<open>isProductLabel = False\<close>, confidence 0, a reasoning that is not empty (the
  word Error and the reason) and metrics that are all zero; every other image is mapped
  to the result of its pipeline. No failure of an image keeps the batch from
  returning.\<close>

theorem batch_isolates_failures:
  assumes "0 < workerPoolSize" and "distinct (map image_id images)"
  shows "\<exists>results.
           detectLabelsInBatch detectLabel workerPoolSize images = Some results \<and>
           dom results = image_id ` set images \<and>
           card (dom results) = length images \<and>
           (\<forall>img\<in>set images.
              results (image_id img) =
                Some (case detectLabel img of
                        Inr v \<Rightarrow> v
                      | Inl reason \<Rightarrow> failureResult reason)) \<and>
           (\<forall>reason.
              \<not> isProductLabel (failureResult reason) \<and>
              res_confidence (failureResult reason) = 0 \<and>
              res_reasoning (failureResult reason) \<noteq> [] \<and>
              metrics (failureResult reason) =
                \<lparr> textCoverage = 0, m_textBlockCount = 0, wordCount = 0,
                  m_hasBarcode = False, m_hasQRCode = False, averageTextConfidence = 0 \<rparr>)"
proof -
  let ?results = "fold (\<lambda>img m. m(image_id img \<mapsto> settledResult detectLabel img))
      images Map.empty"
  have ret: "detectLabelsInBatch detectLabel workerPoolSize images = Some ?results"
    by (rule detectLabelsInBatch_fold[OF assms(1)])
  have dom: "dom ?results = image_id ` set images"
    by (simp add: fold_update_dom)
  have "card (image_id ` set images) = length images"
    using assms(2) by (metis distinct_card length_map set_map)
  with dom have card: "card (dom ?results) = length images" by simp
  have each: "\<forall>img\<in>set images. ?results (image_id img) =
      Some (case detectLabel img of Inr v \<Rightarrow> v | Inl reason \<Rightarrow> failureResult reason)"
    using fold_update_distinct[OF assms(2), where g = "settledResult detectLabel"]
    by (simp add: settledResult_def)
  have fail: "\<forall>reason.
      \<not> isProductLabel (failureResult reason) \<and>
      res_confidence (failureResult reason) = 0 \<and>
      res_reasoning (failureResult reason) \<noteq> [] \<and>
      metrics (failureResult reason) =
        \<lparr> textCoverage = 0, m_textBlockCount = 0, wordCount = 0,
          m_hasBarcode = False, m_hasQRCode = False, averageTextConfidence = 0 \<rparr>"
    by (simp add: failureResult_def str_def)
  from ret dom card each fail show ?thesis by blast
qed

theorem batch_isolates_failures_witness:
  "0 < (4::nat) \<and> distinct (map image_id [sampleImage, otherImage]) \<and>
   entryCount (detectLabelsInBatch failsOnSample 4 [sampleImage, otherImage]) = Some 2 \<and>
   entryOf (detectLabelsInBatch failsOnSample 4 [sampleImage, otherImage])
     (image_id sampleImage) =
     Some (failureResult (str ''Error: No hay workers disponibles en el pool'')) \<and>
   entryOf (detectLabelsInBatch failsOnSample 4 [sampleImage, otherImage])
     (image_id otherImage) =
     Some (detectLabelFromOCR exampleFormat emptyOCR 1000 1000 12)"
proof -
  have h1: "0 < (4::nat)" by simp
  have ids: "image_id sampleImage \<noteq> image_id otherImage"
    by (simp add: sampleImage_def otherImage_def str_def)
  then have h2: "distinct (map image_id [sampleImage, otherImage])" by simp
  from batch_isolates_failures [OF h1 h2, of failsOnSample]
  obtain results where ret:
      "detectLabelsInBatch failsOnSample 4 [sampleImage, otherImage] = Some results"
    and count: "card (dom results) = length [sampleImage, otherImage]"
    and each: "\<forall>img\<in>set [sampleImage, otherImage].
        results (image_id img) =
          Some (case failsOnSample img of Inr v \<Rightarrow> v | Inl reason \<Rightarrow> failureResult reason)"
    by blast
  have dims: "filePixelWidth otherImage = 1000" "filePixelHeight otherImage = 1000"
    by (simp_all add: otherImage_def sampleImage_def)
  from each ids have
    "results (image_id sampleImage) =
       Some (failureResult (str ''Error: No hay workers disponibles en el pool''))"
    "results (image_id otherImage) =
       Some (detectLabelFromOCR exampleFormat emptyOCR 1000 1000 12)"
    by (simp_all add: failsOnSample_def dims)
  with h1 h2 ret count show ?thesis
    by (simp add: entryCount_def entryOf_def)
qed

text \<open>Claim C2, as stated, fails on a batch that holds the same identifier twice: the map
  has one entry for the two images.\<close>

theorem batch_duplicate_ids:
  "length [sampleImage, sampleImage] = 2 \<and>
   entryCount (detectLabelsInBatch ocrFails 4 [sampleImage, sampleImage]) = Some 1"
  by (simp add: detectLabelsInBatch_fold entryCount_def)

text \<open>With a worker pool of size zero the loop of \<open>chunkArray\<close> never ends on a batch that
  is not empty, so the batch never returns.\<close>

lemma chunkLoop_Some_progress:
  assumes "chunkLoop array chunkSize i chunks = Some cs"
  shows "\<not> (chunkSize = 0 \<and> i < length array)"
  using assms
proof (induction array chunkSize i chunks cs rule: chunkLoop.raw_induct)
  case (1 loop array chunkSize i chunks cs)
  show ?case
  proof
    assume stuck: "chunkSize = 0 \<and> i < length array"
    have actual: "chunkLoop array chunkSize (i + chunkSize)
        (chunks @ [take chunkSize (drop i array)]) = Some cs"
      using "1.prems" stuck by (subst (asm) chunkLoop.simps) simp
    have inner: "loop array chunkSize (i + chunkSize)
        (chunks @ [take chunkSize (drop i array)]) = Some cs"
      using "1.hyps" stuck by simp
    from "1.IH"[OF inner actual] stuck show False by simp
  qed
qed (use assms in auto)

lemma batch_zero_pool_never_returns:
  assumes "images \<noteq> []"
  shows "detectLabelsInBatch detectLabel 0 images = None"
proof (cases "chunkArray images 0")
  case None
  then show ?thesis by (simp add: detectLabelsInBatch_def)
next
  case (Some cs)
  with chunkLoop_Some_progress[of images 0 0 "[]" cs] assms show ?thesis
    by (simp add: chunkArray_def)
qed

end
